theory Spec2Isabelle
  imports Main
begin

section \<open>JavaScript values\<close>

text \<open>
  The values that travel through the tools: JSON data received from the messaging API and the
  objects the tools return. An object is an association list from property names to values;
  reading a property that is not there gives \<open>undefined\<close>.
\<close>

datatype jsval =
    JUndefined
  | JNull
  | JBool bool
  | JNum int
  | JStr string
  | JArr "jsval list"
  | JObj "(string \<times> jsval) list"

type_synonym jsobj = "(string \<times> jsval) list"

text \<open>A message of the upstream API is an object.\<close>

type_synonym message = jsobj

fun truthy :: "jsval \<Rightarrow> bool" where
  "truthy JUndefined = False"
| "truthy JNull = False"
| "truthy (JBool b) = b"
| "truthy (JNum n) = (n \<noteq> 0)"
| "truthy (JStr s) = (s \<noteq> [])"
| "truthy (JArr xs) = True"
| "truthy (JObj kvs) = True"

text \<open>\<open>obj.k\<close>\<close>

definition field :: "jsobj \<Rightarrow> string \<Rightarrow> jsval" where
  "field obj k = (case map_of obj k of None \<Rightarrow> JUndefined | Some v \<Rightarrow> v)"

text \<open>
  A \<open>Date\<close> object holds a time value in milliseconds since the epoch, or is an invalid
  date (its time value is \<open>NaN\<close>). Relational operators on dates compare the time values,
  and every comparison with \<open>NaN\<close> is false.
\<close>

datatype jsdate = InvalidDate | Date int

fun date_ge :: "jsdate \<Rightarrow> jsdate \<Rightarrow> bool" where
  "date_ge (Date x) (Date y) = (y \<le> x)"
| "date_ge _ _ = False"

fun date_gt :: "jsdate \<Rightarrow> jsdate \<Rightarrow> bool" where
  "date_gt (Date x) (Date y) = (y < x)"
| "date_gt _ _ = False"

text \<open>\<open>isNaN(d.getTime())\<close>\<close>

fun isNaN_getTime :: "jsdate \<Rightarrow> bool" where
  "isNaN_getTime InvalidDate = True"
| "isNaN_getTime (Date x) = False"

text \<open>A thrown \<open>Error\<close>: its message and its stack.\<close>

datatype js_error = JsError (message: string) (stack: string)

text \<open>A string argument that JavaScript tests with \<open>if (x)\<close>: absent and empty are both falsy.\<close>

fun truthy_str :: "string option \<Rightarrow> bool" where
  "truthy_str None = False"
| "truthy_str (Some s) = (s \<noteq> [])"

text \<open>
  \<open>xs.splice(n)\<close> (what stays in \<open>xs\<close>) and \<open>xs.slice(0, n)\<close> keep the same elements: the
  first \<open>n\<close>, or for a negative \<open>n\<close> all but the last \<open>-n\<close>.
\<close>

definition js_keep :: "int \<Rightarrow> 'a list \<Rightarrow> 'a list" where
  "js_keep n xs = (if n < 0 then take (nat (int (length xs) + n)) xs else take (nat n) xs)"


section \<open>Listing messages (list-messages.js)\<close>

subsection \<open>The upstream API\<close>

text \<open>
  One GET request to the \<open>/messages\<close> endpoint, as \<open>fetchMessageBatch\<close> builds it: the
  optional query parameters are sent only when they are truthy.
\<close>

record request =
  q_roomId :: string
  q_parentId :: "string option"
  q_mentionedPeople :: "string option"
  q_before :: "string option"
  q_beforeMessage :: "jsval option"
  q_max :: int
  q_headers :: jsobj

text \<open>The JSON body of a successful response: an \<open>items\<close> array, when present, and the rest.\<close>

record body =
  items :: "message list option"
  others :: jsobj

text \<open>
  What a request comes back with: \<open>fetch\<close> or \<open>response.json()\<close> threw, the status was not
  ok (with the JSON text of the error body), or a body.
\<close>

datatype response = FetchRejected js_error | HttpNotOk string | HttpOk body

text \<open>
  What the code takes from the JavaScript runtime and the network: the \<open>Date\<close> constructor,
  \<open>toISOString\<close> on a valid date, the upstream API (its answer may depend on how many
  requests this invocation has made before), the stack the runtime attaches to an \<open>Error\<close>
  created with a given message, the message of a failed shell command, and what the shell
  makes of a word written between double quotes (the word after the expansions of \<open>$\<close>,
  backquote and backslash, or \<open>None\<close> when the command line fails).
\<close>

record runtime =
  toDate :: "jsval \<Rightarrow> jsdate"
  toISOString :: "int \<Rightarrow> string"
  api :: "nat \<Rightarrow> request \<Rightarrow> response"
  trace :: "string \<Rightarrow> string"
  exec_message :: string
  shell_word :: "string \<Rightarrow> string option"

definition new_Error :: "runtime \<Rightarrow> string \<Rightarrow> js_error" where
  "new_Error rt msg = JsError msg (trace rt msg)"

text \<open>The network log of one invocation: every request made, with its response, in order.\<close>

type_synonym netlog = "(request \<times> response) list"

definition opt_param :: "string option \<Rightarrow> string option" where
  "opt_param p = (if truthy_str p then p else None)"

definition fetchMessageBatch ::
  "runtime \<Rightarrow> nat \<Rightarrow> string \<Rightarrow> string option \<Rightarrow> string option \<Rightarrow> string option \<Rightarrow> jsval \<Rightarrow> int
     \<Rightarrow> jsobj \<Rightarrow> (js_error + body) \<times> (request \<times> response)" where
  "fetchMessageBatch rt n roomId parentId mentionedPeople before beforeMessage mx headers =
     (let req = \<lparr> q_roomId = roomId,
                  q_parentId = opt_param parentId,
                  q_mentionedPeople = opt_param mentionedPeople,
                  q_before = opt_param before,
                  q_beforeMessage = (if truthy beforeMessage then Some beforeMessage else None),
                  q_max = mx,
                  q_headers = headers \<rparr>;
          resp = api rt n req
      in ((case resp of
             FetchRejected e \<Rightarrow> Inl e
           | HttpNotOk errorData \<Rightarrow> Inl (new_Error rt errorData)
           | HttpOk data \<Rightarrow> Inr data), (req, resp)))"

subsection \<open>Summaries\<close>

definition summarizeMessage :: "message \<Rightarrow> message" where
  "summarizeMessage msg =
     [(''id'', field msg ''id''),
      (''personEmail'', field msg ''personEmail''),
      (''personId'', field msg ''personId''),
      (''created'', field msg ''created''),
      (''text'', field msg ''text''),
      (''parentId'', field msg ''parentId''),
      (''roomType'', field msg ''roomType'')]"

subsection \<open>The tool\<close>

record args =
  roomId :: string
  parentId :: "string option"
  mentionedPeople :: "string option"
  before :: "string option"
  beforeMessage :: "string option"
  after :: "string option"
  max_arg :: "int option"
  summarize :: "bool option"

definition batchSize :: nat where
  "batchSize = 100"

definition maxIterations :: nat where
  "maxIterations = 20"

text \<open>
  The \<open>for\<close> loop over one batch: messages not older than \<open>afterDate\<close> are pushed onto
  \<open>collectedMessages\<close>; the first other message sets \<open>foundOlderMessage\<close> and ends the scan.
\<close>

fun scan_batch :: "runtime \<Rightarrow> jsdate \<Rightarrow> message list \<Rightarrow> message list \<Rightarrow> message list \<times> bool" where
  "scan_batch rt afterDate [] collectedMessages = (collectedMessages, False)"
| "scan_batch rt afterDate (msg # rest) collectedMessages =
     (if date_ge (toDate rt (field msg ''created'')) afterDate
      then scan_batch rt afterDate rest (collectedMessages @ [msg])
      else (collectedMessages, True))"

text \<open>
  One turn of the \<open>while\<close> loop, after \<open>iterations++\<close>: it either leaves the loop (by
  \<open>break\<close>, or by the exception of a failed fetch) or goes on with a new cursor.
\<close>

datatype turn = Break "js_error + message list" | Continue jsval "message list"

definition loop_body ::
  "runtime \<Rightarrow> args \<Rightarrow> int \<Rightarrow> jsobj \<Rightarrow> jsdate \<Rightarrow> nat \<Rightarrow> jsval \<Rightarrow> message list
     \<Rightarrow> turn \<times> (request \<times> response)" where
  "loop_body rt a mx headers afterDate n cursor collectedMessages =
     (case fetchMessageBatch rt n (roomId a) (parentId a) (mentionedPeople a) (before a) cursor
             (int batchSize) headers of
        (Inl e, entry) \<Rightarrow> (Break (Inl e), entry)
      | (Inr data, entry) \<Rightarrow>
          (case items data of
             None \<Rightarrow> (Break (Inr collectedMessages), entry)
           | Some its \<Rightarrow>
               if length its = 0 then (Break (Inr collectedMessages), entry)
               else
                 (case scan_batch rt afterDate its collectedMessages of
                    (collected, foundOlderMessage) \<Rightarrow>
                      if foundOlderMessage then (Break (Inr collected), entry)
                      else if mx \<noteq> 0 \<and> mx \<le> int (length collected)
                        then (Break (Inr (js_keep mx collected)), entry)
                      else if length its < batchSize
                        then (Break (Inr collected), entry)
                      else (Continue (field (last its) ''id'') collected, entry))))"

function paginate ::
  "runtime \<Rightarrow> args \<Rightarrow> int \<Rightarrow> jsobj \<Rightarrow> jsdate \<Rightarrow> nat \<Rightarrow> jsval \<Rightarrow> message list \<Rightarrow> netlog
     \<Rightarrow> (js_error + message list) \<times> netlog" where
  "paginate rt a mx headers afterDate iterations cursor collectedMessages lg =
     (if iterations < maxIterations then
        (case loop_body rt a mx headers afterDate iterations cursor collectedMessages of
           (Break r, entry) \<Rightarrow> (r, lg @ [entry])
         | (Continue cursor' collected, entry) \<Rightarrow>
             paginate rt a mx headers afterDate (Suc iterations) cursor' collected (lg @ [entry]))
      else (Inr collectedMessages, lg))"
  by pat_completeness auto
termination
  by (relation "measure (\<lambda>(rt, a, mx, headers, afterDate, iterations, cursor, collected, lg).
        maxIterations - iterations)") auto

definition error_result :: "js_error \<Rightarrow> jsobj" where
  "error_result e =
     [(''error'', JStr (if message e \<noteq> [] then message e
                        else ''An error occurred while listing messages.'')),
      (''details'', JStr (stack e))]"

text \<open>The body as the object it is: \<open>others\<close> holds its properties other than \<open>items\<close>.\<close>

definition body_object :: "body \<Rightarrow> jsobj" where
  "body_object data =
     (case items data of
        None \<Rightarrow> []
      | Some its \<Rightarrow> [(''items'', JArr (map JObj its))])
     @ filter (\<lambda>kv. fst kv \<noteq> ''items'') (others data)"

definition invalid_after_message :: "string \<Rightarrow> string" where
  "invalid_after_message a =
     ''Invalid '' @ [CHR 0x27] @ ''after'' @ [CHR 0x27] @ '' date format: '' @ a
       @ ''. Use ISO 8601 format (e.g., 2024-01-27T18:00:00Z).''"

text \<open>
  \<open>executeFunction\<close>. The argument \<open>hdrs\<close> is what \<open>getWebexHeaders()\<close> of the configuration
  module gives in the current authentication state: the headers, or the error it throws. The
  result is the object the tool returns, with the network log of the invocation.
\<close>

definition executeFunction :: "runtime \<Rightarrow> js_error + jsobj \<Rightarrow> args \<Rightarrow> jsobj \<times> netlog" where
  "executeFunction rt hdrs a =
     (let mx = (case max_arg a of None \<Rightarrow> 50 | Some m \<Rightarrow> m);
          summ = (case summarize a of None \<Rightarrow> True | Some b \<Rightarrow> b)
      in case hdrs of
           Inl e \<Rightarrow> (error_result e, [])
         | Inr headers \<Rightarrow>
             if \<not> truthy_str (after a) then
               (case fetchMessageBatch rt 0 (roomId a) (parentId a) (mentionedPeople a) (before a)
                       (case beforeMessage a of None \<Rightarrow> JUndefined | Some c \<Rightarrow> JStr c) mx headers of
                  (Inl e, entry) \<Rightarrow> (error_result e, [entry])
                | (Inr data, entry) \<Rightarrow>
                    (body_object
                       (if summ then data\<lparr>items := map_option (map summarizeMessage) (items data)\<rparr>
                        else data),
                     [entry]))
             else
               (let afterDate = toDate rt (JStr (the (after a)))
                in if isNaN_getTime afterDate
                   then (error_result (new_Error rt (invalid_after_message (the (after a)))), [])
                   else
                     (case paginate rt a mx headers afterDate 0
                             (case beforeMessage a of None \<Rightarrow> JUndefined | Some c \<Rightarrow> JStr c) [] [] of
                        (Inl e, lg) \<Rightarrow> (error_result e, lg)
                      | (Inr collectedMessages, lg) \<Rightarrow>
                          (let limitedMessages =
                                 (if mx \<noteq> 0 then js_keep mx collectedMessages else collectedMessages)
                           in ([(''items'', JArr (map JObj (if summ then map summarizeMessage limitedMessages
                                                            else limitedMessages))),
                                (''count'', JNum (int (length limitedMessages))),
                                (''filtered'', JBool True),
                                (''afterFilter'', JStr (the (after a)))], lg)))))"

subsection \<open>Reading a run\<close>

text \<open>The messages a logged request came back with (none when it failed or had no items).\<close>

definition batch_of :: "request \<times> response \<Rightarrow> message list" where
  "batch_of entry =
     (case snd entry of
        HttpOk data \<Rightarrow> (case items data of None \<Rightarrow> [] | Some its \<Rightarrow> its)
      | _ \<Rightarrow> [])"

text \<open>A request that came back with a body.\<close>

fun succeeded :: "response \<Rightarrow> bool" where
  "succeeded (HttpOk data) = True"
| "succeeded _ = False"

text \<open>The test of the scan: the message's \<open>created\<close> date is not before \<open>afterDate\<close>.\<close>

definition in_range :: "runtime \<Rightarrow> jsdate \<Rightarrow> message \<Rightarrow> bool" where
  "in_range rt afterDate msg = date_ge (toDate rt (field msg ''created'')) afterDate"

text \<open>The \<open>items\<close> of a returned object, when it has them.\<close>

fun the_object :: "jsval \<Rightarrow> jsobj" where
  "the_object (JObj kvs) = kvs"
| "the_object _ = []"

definition returned_items :: "jsobj \<Rightarrow> message list option" where
  "returned_items r = (case field r ''items'' of JArr xs \<Rightarrow> Some (map the_object xs) | _ \<Rightarrow> None)"

text \<open>
  The request \<open>fetchMessageBatch\<close> makes for the arguments of the tool, a cursor and a limit,
  and the cursor the tool starts from.
\<close>

definition request_for :: "args \<Rightarrow> jsval \<Rightarrow> int \<Rightarrow> jsobj \<Rightarrow> request" where
  "request_for a cursor mx headers =
     \<lparr> q_roomId = roomId a,
       q_parentId = opt_param (parentId a),
       q_mentionedPeople = opt_param (mentionedPeople a),
       q_before = opt_param (before a),
       q_beforeMessage = (if truthy cursor then Some cursor else None),
       q_max = mx,
       q_headers = headers \<rparr>"

definition first_cursor :: "args \<Rightarrow> jsval" where
  "first_cursor a = (case beforeMessage a of None \<Rightarrow> JUndefined | Some c \<Rightarrow> JStr c)"

text \<open>
  A log that is the upstream API's account of a paginated run: request number \<open>n\<close> is the one
  for the cursor at hand and the batch size, its response is what the API answers to it, and
  the next request takes for its cursor the \<open>id\<close> of the last message of that batch.
\<close>

fun api_log :: "runtime \<Rightarrow> args \<Rightarrow> jsobj \<Rightarrow> nat \<Rightarrow> jsval \<Rightarrow> netlog \<Rightarrow> bool" where
  "api_log rt a headers n cursor [] = True"
| "api_log rt a headers n cursor (entry # rest) =
     (entry = (request_for a cursor (int batchSize) headers,
               api rt n (request_for a cursor (int batchSize) headers))
      \<and> api_log rt a headers (Suc n) (field (last (batch_of entry)) ''id'') rest)"

text \<open>The effective limit: \<open>max\<close> with its default.\<close>

definition max_of :: "args \<Rightarrow> int" where
  "max_of a = (case max_arg a of None \<Rightarrow> 50 | Some m \<Rightarrow> m)"

subsection \<open>A small upstream for concrete runs\<close>

definition ex_toDate :: "jsval \<Rightarrow> jsdate" where
  "ex_toDate v =
     (case v of
        JStr s \<Rightarrow>
          (if s = ''2024-01-27T00:00:00Z'' then Date 1706313600000
           else if s = ''2024-01-28T09:00:00Z'' then Date 1706432400000
           else if s = ''2024-01-26T09:00:00Z'' then Date 1706259600000
           else InvalidDate)
      | _ \<Rightarrow> InvalidDate)"

definition ex_msg :: "string \<Rightarrow> string \<Rightarrow> message" where
  "ex_msg i created =
     [(''id'', JStr i), (''roomId'', JStr ''R1''), (''personEmail'', JStr ''a@example.com''),
      (''created'', JStr created), (''text'', JStr ''hello''), (''html'', JStr ''<p>hello</p>'')]"

definition ex_new :: message where
  "ex_new = ex_msg ''m1'' ''2024-01-28T09:00:00Z''"

definition ex_old :: message where
  "ex_old = ex_msg ''m0'' ''2024-01-26T09:00:00Z''"

text \<open>An API that answers the first request with the given batch and every later one with an empty batch.\<close>

definition ex_runtime :: "message list \<Rightarrow> runtime" where
  "ex_runtime first =
     \<lparr> toDate = ex_toDate,
       toISOString = (\<lambda>t. if t = 1706313600000 then ''2024-01-27T00:00:00.000Z'' else ''1970-01-01T00:00:00.000Z''),
       api = (\<lambda>n req. HttpOk \<lparr> items = Some (if n = 0 then first else []), others = [] \<rparr>),
       trace = (\<lambda>msg. ''Error: '' @ msg),
       exec_message = ''Command failed'',
       shell_word = Some \<rparr>"

definition ex_headers :: jsobj where
  "ex_headers = [(''Accept'', JStr ''application/json''), (''Authorization'', JStr ''Bearer t0'')]"

definition ex_args :: "string option \<Rightarrow> int option \<Rightarrow> args" where
  "ex_args aft mx =
     \<lparr> roomId = ''R1'', parentId = None, mentionedPeople = None, before = None,
       beforeMessage = None, after = aft, max_arg = mx, summarize = None \<rparr>"


section \<open>The process state\<close>

text \<open>
  The refresh timers of the token manager run one of three callbacks: the one of the immediate
  refresh, the one of the refresh scheduled ahead of expiry, and the one of the retry that the
  scheduled refresh sets up when it fails.
\<close>

datatype callback = ImmediateRefresh | ScheduledRefresh | RetryRefresh

text \<open>
  A pending timer of the runtime: the handle \<open>setTimeout\<close> returned, its callback, the delay
  it was given in milliseconds (\<open>None\<close> for \<open>NaN\<close>) and the time it was set at.
\<close>

record timer =
  handle :: nat
  callback :: callback
  delay :: "int option"
  set_at :: int

text \<open>
  The only function the repository registers with \<open>setTokenRefreshCallback\<close> is the one of
  \<open>webex-config.js\<close>, which stores the new token in the configuration module's own cache.
\<close>

datatype refresh_callback = ConfigCallback

text \<open>
  The state of the process and of its host: the module variables of \<open>token-manager.js\<close>
  (\<open>refreshTimeout\<close>, \<open>cachedToken\<close>, \<open>tokenExpiresAt\<close>, \<open>onTokenRefreshed\<close>) and of
  \<open>webex-config.js\<close> (\<open>cfg_cachedToken\<close>, \<open>authInitialized\<close>, \<open>authMethod\<close>,
  \<open>keychainTokenManager\<close>), the clock, the pending timers, the timer callbacks that have
  started and are waiting for their \<open>forceRefresh()\<close>, the platform, the items of the
  keychain by account, whether the \<open>security\<close> command can be run, and the number of calls
  made to \<open>fetchTokenFromBrowser\<close>.
\<close>

record world =
  refreshTimeout :: "nat option"
  cachedToken :: "string option"
  tokenExpiresAt :: "jsdate option"
  onTokenRefreshed :: "refresh_callback option"
  cfg_cachedToken :: "string option"
  authInitialized :: bool
  authMethod :: "string option"
  keychainTokenManager :: bool
  clock :: int
  timers :: "timer list"
  nextHandle :: nat
  awaiting :: "callback list"
  platform :: string
  keychain :: "(string \<times> string) list"
  security_runs :: bool
  fetches :: nat

definition tick :: "nat \<Rightarrow> world \<Rightarrow> world" where
  "tick d w = w\<lparr>clock := clock w + int d\<rparr>"

definition setTimeout :: "callback \<Rightarrow> int option \<Rightarrow> world \<Rightarrow> nat \<times> world" where
  "setTimeout cb ms w =
     (nextHandle w,
      w\<lparr>timers := timers w @ [\<lparr>handle = nextHandle w, callback = cb, delay = ms, set_at = clock w\<rparr>],
        nextHandle := Suc (nextHandle w)\<rparr>)"

definition clearTimeout :: "nat \<Rightarrow> world \<Rightarrow> world" where
  "clearTimeout h w = w\<lparr>timers := filter (\<lambda>t. handle t \<noteq> h) (timers w)\<rparr>"


section \<open>The keychain (keychain/index.js)\<close>

definition KEYCHAIN_ACCOUNT :: string where
  "KEYCHAIN_ACCOUNT = ''personal-access-token''"

definition KEYCHAIN_EXPIRY_ACCOUNT :: string where
  "KEYCHAIN_EXPIRY_ACCOUNT = ''personal-access-token-expiry''"

definition is_space :: "char \<Rightarrow> bool" where
  "is_space c = (c \<in> set [CHR '' '', CHR 0x09, CHR 0x0A, CHR 0x0B, CHR 0x0C, CHR 0x0D])"

text \<open>\<open>s.trim()\<close>, on the white space of ASCII.\<close>

definition trim :: "string \<Rightarrow> string" where
  "trim s = rev (dropWhile is_space (rev (dropWhile is_space s)))"

text \<open>\<open>arg.replace(/"/g, '\\"')\<close>: a backslash before every double quote.\<close>

definition escape_quotes :: "string \<Rightarrow> string" where
  "escape_quotes s = concat (map (\<lambda>c. if c = CHR 0x22 then [CHR 0x5C, CHR 0x22] else [c]) s)"

text \<open>
  The three helpers run the \<open>security\<close> command through the shell, every argument between
  double quotes. Adding with \<open>-U\<close> replaces an item of the same account; the password reaches
  the keychain as the shell expands it, double quotes alone being escaped. Finding fails when
  there is no item; a failed deletion is ignored. The account names are letters and hyphens,
  which the shell leaves as they are.
\<close>

definition addToKeychain :: "runtime \<Rightarrow> string \<Rightarrow> string \<Rightarrow> world \<Rightarrow> (js_error + unit) \<times> world" where
  "addToKeychain rt account password w =
     (if security_runs w
      then (case shell_word rt (escape_quotes password) of
              Some stored \<Rightarrow>
                (Inr (), w\<lparr>keychain := (account, stored) # filter (\<lambda>kv. fst kv \<noteq> account) (keychain w)\<rparr>)
            | None \<Rightarrow> (Inl (new_Error rt (''Failed to store in Keychain: '' @ exec_message rt)), w))
      else (Inl (new_Error rt (''Failed to store in Keychain: '' @ exec_message rt)), w))"

definition getFromKeychain :: "runtime \<Rightarrow> string \<Rightarrow> world \<Rightarrow> js_error + string" where
  "getFromKeychain rt account w =
     (if security_runs w
      then (case map_of (keychain w) account of
              Some password \<Rightarrow> Inr (trim password)
            | None \<Rightarrow> Inl (new_Error rt (''Failed to read from Keychain: '' @ exec_message rt)))
      else Inl (new_Error rt (''Failed to read from Keychain: '' @ exec_message rt)))"

definition deleteFromKeychain :: "string \<Rightarrow> world \<Rightarrow> world" where
  "deleteFromKeychain account w =
     (if security_runs w then w\<lparr>keychain := filter (\<lambda>kv. fst kv \<noteq> account) (keychain w)\<rparr> else w)"

definition storeToken :: "runtime \<Rightarrow> string \<Rightarrow> jsdate \<Rightarrow> world \<Rightarrow> (js_error + unit) \<times> world" where
  "storeToken rt token expiresAt w =
     (if platform w \<noteq> ''darwin''
      then (Inl (new_Error rt ''Keychain storage is only supported on macOS''), w)
      else
        (case addToKeychain rt KEYCHAIN_ACCOUNT token
                (deleteFromKeychain KEYCHAIN_EXPIRY_ACCOUNT (deleteFromKeychain KEYCHAIN_ACCOUNT w)) of
           (Inl e, w1) \<Rightarrow> (Inl e, w1)
         | (Inr u, w1) \<Rightarrow>
             (case expiresAt of
                InvalidDate \<Rightarrow> (Inl (new_Error rt ''Invalid time value''), w1)
              | Date t \<Rightarrow> addToKeychain rt KEYCHAIN_EXPIRY_ACCOUNT (toISOString rt t) w1)))"

definition loadToken :: "runtime \<Rightarrow> world \<Rightarrow> (string \<times> jsdate) option" where
  "loadToken rt w =
     (if platform w \<noteq> ''darwin'' then None
      else
        (case getFromKeychain rt KEYCHAIN_ACCOUNT w of
           Inl e \<Rightarrow> None
         | Inr token \<Rightarrow>
             (case getFromKeychain rt KEYCHAIN_EXPIRY_ACCOUNT w of
                Inl e \<Rightarrow> None
              | Inr expiryStr \<Rightarrow>
                  if token = [] \<or> expiryStr = [] then None
                  else Some (token, toDate rt (JStr expiryStr)))))"

definition clearToken :: "world \<Rightarrow> world" where
  "clearToken w =
     (if platform w \<noteq> ''darwin'' then w
      else deleteFromKeychain KEYCHAIN_EXPIRY_ACCOUNT (deleteFromKeychain KEYCHAIN_ACCOUNT w))"


section \<open>The token manager (keychain/token-manager.js)\<close>

definition REFRESH_BEFORE_EXPIRY_MINUTES :: int where
  "REFRESH_BEFORE_EXPIRY_MINUTES = 30"

text \<open>
  What one call meets outside the process: how long the keychain commands and the browser
  login take, and what \<open>fetchTokenFromBrowser()\<close> comes back with (the token and its expiry,
  or the error it throws).
\<close>

record circumstances =
  keychain_ms :: nat
  browser_ms :: nat
  browser :: "js_error + string \<times> jsdate"

definition scheduleRefresh :: "jsdate \<Rightarrow> world \<Rightarrow> world" where
  "scheduleRefresh expiresAt w =
     (let w1 = (case refreshTimeout w of
                  Some h \<Rightarrow> (clearTimeout h w)\<lparr>refreshTimeout := None\<rparr>
                | None \<Rightarrow> w)
      in case expiresAt of
           InvalidDate \<Rightarrow>
             (case setTimeout ScheduledRefresh None w1 of (h, w2) \<Rightarrow> w2\<lparr>refreshTimeout := Some h\<rparr>)
         | Date e \<Rightarrow>
             (let refreshAt = e - REFRESH_BEFORE_EXPIRY_MINUTES * 60 * 1000;
                  now = clock w1;
                  msUntilRefresh = refreshAt - now
              in if msUntilRefresh \<le> 0
                 then (case setTimeout ImmediateRefresh (Some 1000) w1 of
                         (h, w2) \<Rightarrow> w2\<lparr>refreshTimeout := Some h\<rparr>)
                 else (case setTimeout ScheduledRefresh (Some msUntilRefresh) w1 of
                         (h, w2) \<Rightarrow> w2\<lparr>refreshTimeout := Some h\<rparr>)))"

fun run_callback :: "refresh_callback \<Rightarrow> string \<Rightarrow> world \<Rightarrow> world" where
  "run_callback ConfigCallback newToken w = w\<lparr>cfg_cachedToken := Some newToken\<rparr>"

text \<open>
  \<open>forceRefresh()\<close> in its two parts: up to the call of \<open>fetchTokenFromBrowser()\<close>, and from the
  moment that call settles. Nothing of the module state is read or written before the fetch
  has settled and the token has been stored.
\<close>

definition forceRefresh_start :: "world \<Rightarrow> world" where
  "forceRefresh_start w = w\<lparr>fetches := Suc (fetches w)\<rparr>"

definition forceRefresh_settle ::
  "runtime \<Rightarrow> nat \<Rightarrow> js_error + string \<times> jsdate \<Rightarrow> world \<Rightarrow> (js_error + string) \<times> world" where
  "forceRefresh_settle rt store_ms fetched w =
     (case fetched of
        Inl e \<Rightarrow> (Inl e, w)
      | Inr (token, expiresAt) \<Rightarrow>
          (case storeToken rt token expiresAt w of
             (Inl e, w1) \<Rightarrow> (Inl e, tick store_ms w1)
           | (Inr u, w1) \<Rightarrow>
               (let w2 = (tick store_ms w1)\<lparr>cachedToken := Some token, tokenExpiresAt := Some expiresAt\<rparr>;
                    w3 = scheduleRefresh expiresAt w2;
                    w4 = (case onTokenRefreshed w3 of
                            Some cb \<Rightarrow> run_callback cb token w3
                          | None \<Rightarrow> w3)
                in case expiresAt of
                     InvalidDate \<Rightarrow> (Inl (new_Error rt ''Invalid time value''), w4)
                   | Date t \<Rightarrow> (Inr token, w4))))"

definition forceRefresh :: "runtime \<Rightarrow> circumstances \<Rightarrow> world \<Rightarrow> (js_error + string) \<times> world" where
  "forceRefresh rt c w =
     forceRefresh_settle rt (keychain_ms c) (browser c) (tick (browser_ms c) (forceRefresh_start w))"

text \<open>\<open>_cachedToken && _tokenExpiresAt && _tokenExpiresAt > new Date()\<close>\<close>

definition cache_valid :: "world \<Rightarrow> bool" where
  "cache_valid w =
     (truthy_str (cachedToken w)
      \<and> (case tokenExpiresAt w of None \<Rightarrow> False | Some d \<Rightarrow> date_gt d (Date (clock w))))"

definition getValidToken :: "runtime \<Rightarrow> circumstances \<Rightarrow> world \<Rightarrow> (js_error + string) \<times> world" where
  "getValidToken rt c w =
     (if cache_valid w then (Inr (the (cachedToken w)), w)
      else
        (let stored = loadToken rt w;
             w1 = tick (keychain_ms c) w
         in case stored of
              None \<Rightarrow> forceRefresh rt c w1
            | Some (token, expiresAt) \<Rightarrow>
                if date_gt expiresAt (Date (clock w1))
                then (Inr token,
                      scheduleRefresh expiresAt (w1\<lparr>cachedToken := Some token, tokenExpiresAt := Some expiresAt\<rparr>))
                else forceRefresh rt c w1))"

text \<open>
  Modelled from the spec: \<open>fetchTokenFromBrowser\<close> (\<open>browser-automation.js\<close>) is not among
  the sources. The spec's Interactive Credential Fetcher "obtains a fresh token and its
  expiry". A login started at a given time is fresh when the token it gives, if it gives one,
  has its expiry after the moment \<open>forceRefresh()\<close> returns it: the login done and the token
  stored.
\<close>

definition fresh_login :: "circumstances \<Rightarrow> int \<Rightarrow> bool" where
  "fresh_login c started =
     (case browser c of
        Inl e \<Rightarrow> True
      | Inr (token, expiresAt) \<Rightarrow>
          date_gt expiresAt (Date (started + int (browser_ms c) + int (keychain_ms c))))"

definition getCachedToken :: "world \<Rightarrow> string option" where
  "getCachedToken w = (if cache_valid w then cachedToken w else None)"

definition clearCachedToken :: "circumstances \<Rightarrow> world \<Rightarrow> world" where
  "clearCachedToken c w =
     (let w1 = (case refreshTimeout w of
                  Some h \<Rightarrow> (clearTimeout h w)\<lparr>refreshTimeout := None\<rparr>
                | None \<Rightarrow> w)
      in tick (keychain_ms c) (clearToken (w1\<lparr>cachedToken := None, tokenExpiresAt := None\<rparr>)))"

subsection \<open>Timers firing\<close>

text \<open>
  The runtime fires a pending timer: the timer is no longer pending, and its callback runs up
  to \<open>await forceRefresh()\<close>, where the browser login has been started. A timer never fires
  before it is due; the runtime takes a delay that is \<open>NaN\<close>, below 1 or above 2147483647 for
  1.
\<close>

definition due :: "timer \<Rightarrow> int" where
  "due t = set_at t + (case delay t of
                         None \<Rightarrow> 1
                       | Some ms \<Rightarrow> if ms < 1 \<or> 2147483647 < ms then 1 else ms)"

definition fire :: "nat \<Rightarrow> world \<Rightarrow> world" where
  "fire h w =
     (case find (\<lambda>t. handle t = h) (timers w) of
        None \<Rightarrow> w
      | Some t \<Rightarrow>
          forceRefresh_start
            ((clearTimeout h w)\<lparr>clock := (if clock w < due t then due t else clock w),
                                 awaiting := awaiting w @ [callback t]\<rparr>))"

text \<open>
  The \<open>forceRefresh()\<close> a started callback waits for has settled, and the callback runs to its
  end: every callback catches the failure, and the one of the scheduled refresh sets the
  retry timer.
\<close>

definition retry_ms :: int where
  "retry_ms = 5 * 60 * 1000"

definition settle :: "runtime \<Rightarrow> callback \<Rightarrow> nat \<Rightarrow> js_error + string \<times> jsdate \<Rightarrow> world \<Rightarrow> world" where
  "settle rt cb store_ms fetched w =
     (if cb \<notin> set (awaiting w) then w
      else
        (case forceRefresh_settle rt store_ms fetched (w\<lparr>awaiting := remove1 cb (awaiting w)\<rparr>) of
           (Inr token, w1) \<Rightarrow> w1
         | (Inl e, w1) \<Rightarrow>
             (case cb of
                ScheduledRefresh \<Rightarrow>
                  (case setTimeout RetryRefresh (Some retry_ms) w1 of
                     (h, w2) \<Rightarrow> w2\<lparr>refreshTimeout := Some h\<rparr>)
              | ImmediateRefresh \<Rightarrow> w1
              | RetryRefresh \<Rightarrow> w1)))"

text \<open>A timer firing with nothing else happening until its callback has run to its end.\<close>

definition timer_fires :: "runtime \<Rightarrow> circumstances \<Rightarrow> nat \<Rightarrow> world \<Rightarrow> world" where
  "timer_fires rt c h w =
     (case find (\<lambda>t. handle t = h) (timers w) of
        None \<Rightarrow> w
      | Some t \<Rightarrow> settle rt (callback t) (keychain_ms c) (browser c) (tick (browser_ms c) (fire h w)))"


section \<open>Choosing the authentication (webex-config.js)\<close>

text \<open>
  What the configuration module takes from the OAuth module: whether client credentials are
  configured, what that module's \<open>getValidToken()\<close> comes back with, and what its
  \<open>getCachedToken()\<close> returns.
\<close>

record oauth =
  hasOAuthCredentials :: bool
  oauth_getValidToken :: "js_error + string"
  oauth_getCachedToken :: "string option"

text \<open>\<open>staticToken.replace(/^Bearer\s+/, '')\<close>, on the white space of ASCII.\<close>

definition strip_bearer :: "string \<Rightarrow> string" where
  "strip_bearer s =
     (if take 6 s = ''Bearer'' \<and> 6 < length s \<and> is_space (s ! 6)
      then dropWhile is_space (drop 6 s) else s)"

definition no_auth_message :: string where
  "no_auth_message =
     ''No authentication configured. Either set WEBEX_PUBLIC_WORKSPACE_API_KEY, ''
     @ ''WEBEX_AUTO_REFRESH_TOKEN=true (macOS), or configure OAuth with ''
     @ ''WEBEX_OAUTH_CLIENT_ID and WEBEX_OAUTH_CLIENT_SECRET''"

definition initializeAuth ::
  "runtime \<Rightarrow> (string \<Rightarrow> string option) \<Rightarrow> oauth \<Rightarrow> circumstances \<Rightarrow> world
     \<Rightarrow> (js_error + unit) \<times> world" where
  "initializeAuth rt env oa c w =
     (let staticToken = env ''WEBEX_PUBLIC_WORKSPACE_API_KEY''
      in if truthy_str staticToken
         then (Inr (), w\<lparr>cfg_cachedToken := Some (strip_bearer (the staticToken)),
                         authInitialized := True,
                         authMethod := Some ''static''\<rparr>)
         else if env ''WEBEX_AUTO_REFRESH_TOKEN'' = Some ''true''
         then
           (if platform w \<noteq> ''darwin''
            then (Inl (new_Error rt ''Auto-refresh token is only supported on macOS''), w)
            else
              (case getValidToken rt c (w\<lparr>keychainTokenManager := True,
                                            onTokenRefreshed := Some ConfigCallback\<rparr>) of
                 (Inl e, w1) \<Rightarrow> (Inl e, w1)
               | (Inr token, w1) \<Rightarrow>
                   (Inr (), w1\<lparr>cfg_cachedToken := Some token,
                                authInitialized := True,
                                authMethod := Some ''auto-refresh''\<rparr>)))
         else if hasOAuthCredentials oa
         then
           (case oauth_getValidToken oa of
              Inl e \<Rightarrow> (Inl e, w)
            | Inr token \<Rightarrow>
                (Inr (), w\<lparr>cfg_cachedToken := Some token,
                            authInitialized := True,
                            authMethod := Some ''oauth''\<rparr>))
         else (Inl (new_Error rt no_auth_message), w))"


text \<open>
  The token for a request: a token that the OAuth module or the token manager has in its
  cache replaces the module's own copy first.
\<close>

definition getWebexToken :: "runtime \<Rightarrow> oauth \<Rightarrow> world \<Rightarrow> (js_error + string) \<times> world" where
  "getWebexToken rt oa w =
     (let w1 = (if authMethod w = Some ''oauth'' \<and> truthy_str (oauth_getCachedToken oa)
                then w\<lparr>cfg_cachedToken := oauth_getCachedToken oa\<rparr> else w);
          w2 = (if authMethod w1 = Some ''auto-refresh'' \<and> keychainTokenManager w1
                   \<and> truthy_str (getCachedToken w1)
                then w1\<lparr>cfg_cachedToken := getCachedToken w1\<rparr> else w1)
      in if \<not> authInitialized w2
         then (Inl (new_Error rt ''Authentication not initialized. Call initializeAuth() first.''), w2)
         else if \<not> truthy_str (cfg_cachedToken w2)
         then (Inl (new_Error rt ''No valid token available. Authentication may have failed.''), w2)
         else (Inr (the (cfg_cachedToken w2)), w2))"

definition getWebexHeaders :: "runtime \<Rightarrow> oauth \<Rightarrow> world \<Rightarrow> (js_error + jsobj) \<times> world" where
  "getWebexHeaders rt oa w =
     (case getWebexToken rt oa w of
        (Inl e, w1) \<Rightarrow> (Inl e, w1)
      | (Inr token, w1) \<Rightarrow>
          (Inr [(''Accept'', JStr ''application/json''),
                (''Authorization'', JStr (''Bearer '' @ token))], w1))"

subsection \<open>A small host for concrete runs\<close>

text \<open>
  Times in milliseconds from the start of the process: ten minutes are 600000, half an hour
  is 1800000, twelve hours are 43200000, a day is 86400000.
\<close>

definition ex_host :: runtime where
  "ex_host =
     \<lparr> toDate = (\<lambda>v. case v of
                        JStr s \<Rightarrow>
                          (if s = ''1970-01-01T12:00:00.000Z'' then Date 43200000
                           else if s = ''1970-01-02T00:00:00.000Z'' then Date 86400000
                           else if s = ''1970-01-01T00:10:00.000Z'' then Date 600000
                           else if s = ''1970-01-01T00:00:00.010Z'' then Date 10
                           else InvalidDate)
                      | _ \<Rightarrow> InvalidDate),
       toISOString = (\<lambda>t. if t = 43200000 then ''1970-01-01T12:00:00.000Z''
                           else if t = 86400000 then ''1970-01-02T00:00:00.000Z''
                           else if t = 600000 then ''1970-01-01T00:10:00.000Z''
                           else if t = 10 then ''1970-01-01T00:00:00.010Z''
                           else ''1970-01-01T00:00:00.000Z''),
       api = (\<lambda>n req. HttpNotOk ''{}''),
       trace = (\<lambda>msg. ''Error: '' @ msg),
       exec_message = ''Command failed'',
       shell_word = Some \<rparr>"

text \<open>A process that has just started on macOS, with an empty keychain.\<close>

definition ex_world :: world where
  "ex_world =
     \<lparr> refreshTimeout = None, cachedToken = None, tokenExpiresAt = None, onTokenRefreshed = None,
       cfg_cachedToken = None, authInitialized = False, authMethod = None,
       keychainTokenManager = False,
       clock = 0, timers = [], nextHandle = 0, awaiting = [],
       platform = ''darwin'', keychain = [], security_runs = True, fetches = 0 \<rparr>"

text \<open>The browser login gives a token with the given expiry after three seconds.\<close>

definition ex_login :: "string \<Rightarrow> int \<Rightarrow> circumstances" where
  "ex_login token expiry = \<lparr> keychain_ms = 5, browser_ms = 3000, browser = Inr (token, Date expiry) \<rparr>"

text \<open>The browser login fails after three seconds.\<close>

definition ex_failure :: circumstances where
  "ex_failure = \<lparr> keychain_ms = 5, browser_ms = 3000, browser = Inl (JsError ''Login timed out'' '''') \<rparr>"


text \<open>The same process started again later, with the token of an earlier run in the keychain.\<close>

definition ex_restarted :: world where
  "ex_restarted =
     ex_world\<lparr>keychain := [(''personal-access-token-expiry'', ''1970-01-01T12:00:00.000Z''),
                            (''personal-access-token'', ''t1'')]\<rparr>"

text \<open>
  A refresh by timer overlapping a refresh by call. A first \<open>forceRefresh()\<close> gets a token good
  for twelve hours and schedules the refresh; the timer fires and its callback waits for the
  browser login; meanwhile another \<open>forceRefresh()\<close> (as \<open>refreshAutoToken()\<close> calls it) gets a
  token good for a day and schedules its refresh; then the login of the callback fails.
\<close>

definition ex_overlap :: world where
  "ex_overlap =
     settle ex_host ScheduledRefresh 5 (browser ex_failure)
       (snd (forceRefresh ex_host (ex_login ''t2'' 86400000)
          (fire 0 (snd (forceRefresh ex_host (ex_login ''t1'' 43200000) ex_world)))))"

text \<open>Environments of the process.\<close>

definition ex_env_static :: "string \<Rightarrow> string option" where
  "ex_env_static name =
     (if name = ''WEBEX_PUBLIC_WORKSPACE_API_KEY'' then Some ''Bearer abc''
      else if name = ''WEBEX_AUTO_REFRESH_TOKEN'' then Some ''true''
      else None)"

definition ex_env_auto :: "string \<Rightarrow> string option" where
  "ex_env_auto name = (if name = ''WEBEX_AUTO_REFRESH_TOKEN'' then Some ''true'' else None)"

definition ex_env_none :: "string \<Rightarrow> string option" where
  "ex_env_none name = None"

definition ex_oauth :: "bool \<Rightarrow> oauth" where
  "ex_oauth configured =
     \<lparr> hasOAuthCredentials = configured, oauth_getValidToken = Inr ''o1'',
       oauth_getCachedToken = Some ''o1'' \<rparr>"


subsection \<open>The timer invariant\<close>

text \<open>
  At most one refresh timer is pending, and it is the one whose handle the manager holds in
  \<open>refreshTimeout\<close>.
\<close>

definition one_timer :: "world \<Rightarrow> bool" where
  "one_timer w =
     (length (timers w) \<le> 1
      \<and> list_all (\<lambda>t. refreshTimeout w = Some (handle t)) (timers w))"

section \<open>Properties of the listing tool\<close>

declare paginate.simps [simp del]


lemma scan_batch_eq:
  "scan_batch rt ad its col = (col @ takeWhile (in_range rt ad) its, \<not> list_all (in_range rt ad) its)"
  by (induction its arbitrary: col) (auto simp: in_range_def)

lemma fetch_batch_of:
  "fetchMessageBatch rt n r p m b c mx h = (Inr data, e) \<Longrightarrow> batch_of e = (case items data of None \<Rightarrow> [] | Some its \<Rightarrow> its)"
  by (auto simp: fetchMessageBatch_def batch_of_def Let_def split: response.splits)

lemma takeWhile_all: "\<forall>x\<in>set xs. P x \<Longrightarrow> takeWhile P xs = xs"
  by simp

lemma loop_body_Continue:
  assumes "loop_body rt a mx h ad n c col = (Continue c' col', e)"
  shows "col' = col @ batch_of e \<and> list_all (in_range rt ad) (batch_of e)"
  using assms
  by (auto simp: loop_body_def scan_batch_eq takeWhile_eq_all_conv list_all_iff dest!: fetch_batch_of
      split: prod.splits sum.splits option.splits if_splits)

lemma loop_body_Break:
  assumes "loop_body rt a mx h ad n c col = (Break (Inr col'), e)"
  shows "col' = col @ takeWhile (in_range rt ad) (batch_of e)
       \<or> (mx \<noteq> 0 \<and> mx \<le> int (length (col @ batch_of e)) \<and> list_all (in_range rt ad) (batch_of e)
           \<and> col' = js_keep mx (col @ batch_of e))"
  using assms
  by (auto simp: loop_body_def scan_batch_eq takeWhile_all list_all_iff dest!: fetch_batch_of
      split: prod.splits sum.splits option.splits if_splits)

lemma paginate_collect:
  assumes "paginate rt a mx h ad n c col lg = (Inr col', lg')"
  shows "\<exists>new. lg' = lg @ new
           \<and> (\<forall>b \<in> set (butlast (map batch_of new)). list_all (in_range rt ad) b)
           \<and> (col' = col @ takeWhile (in_range rt ad) (concat (map batch_of new))
                \<or> (mx \<noteq> 0 \<and> mx \<le> int (length (col @ takeWhile (in_range rt ad) (concat (map batch_of new))))
                    \<and> col' = js_keep mx (col @ takeWhile (in_range rt ad) (concat (map batch_of new)))))"
  using assms
proof (induction rt a mx h ad n c col lg arbitrary: col' lg' rule: paginate.induct)
  case (1 rt a mx h ad n c col lg)
  let ?P = "in_range rt ad"
  show ?case
  proof (cases "n < maxIterations")
    case False
    with "1.prems" have "col' = col" "lg' = lg"
      by (simp_all add: paginate.simps)
    then show ?thesis by simp
  next
    case True
    obtain t e where lb: "loop_body rt a mx h ad n c col = (t, e)"
      by (cases "loop_body rt a mx h ad n c col") auto
    show ?thesis
    proof (cases t)
      case (Break r)
      with True lb "1.prems" have r: "r = Inr col'" and lg': "lg' = lg @ [e]"
        by (simp_all add: paginate.simps)
      from loop_body_Break [of rt a mx h ad n c col col' e] lb Break r
      have "col' = col @ takeWhile ?P (batch_of e)
            \<or> (mx \<noteq> 0 \<and> mx \<le> int (length (col @ batch_of e)) \<and> list_all ?P (batch_of e)
                \<and> col' = js_keep mx (col @ batch_of e))"
        by simp
      then show ?thesis
        using lg' by (intro exI [of _ "[e]"]) (auto simp: takeWhile_all list_all_iff)
    next
      case (Continue c2 col2)
      with True lb "1.prems" have rec: "paginate rt a mx h ad (Suc n) c2 col2 (lg @ [e]) = (Inr col', lg')"
        by (simp add: paginate.simps)
      from loop_body_Continue [of rt a mx h ad n c col c2 col2 e] lb Continue
      have col2: "col2 = col @ batch_of e" and inr: "list_all ?P (batch_of e)"
        by simp_all
      from "1.IH" [OF True lb [symmetric] Continue rec]
      obtain new where new: "lg' = (lg @ [e]) @ new"
        "\<forall>b \<in> set (butlast (map batch_of new)). list_all ?P b"
        "col' = col2 @ takeWhile ?P (concat (map batch_of new))
           \<or> (mx \<noteq> 0 \<and> mx \<le> int (length (col2 @ takeWhile ?P (concat (map batch_of new))))
               \<and> col' = js_keep mx (col2 @ takeWhile ?P (concat (map batch_of new))))"
        by blast
      have tw: "takeWhile ?P (concat (map batch_of (e # new))) = batch_of e @ takeWhile ?P (concat (map batch_of new))"
        using inr by (simp add: takeWhile_append2 list_all_iff)
      have bl: "\<forall>b \<in> set (butlast (map batch_of (e # new))). list_all ?P b"
        using new(2) inr by (auto simp: butlast.simps)
      show ?thesis
        using new(1,3) bl unfolding col2 
        by (intro exI [of _ "e # new"]) (simp only: tw append_assoc, simp)
    qed
  qed
qed

lemma paginate_log_length:
  assumes "paginate rt a mx h ad n c col lg = (r, lg')"
  shows "length lg' \<le> length lg + (maxIterations - n) \<and> (n < maxIterations \<longrightarrow> length lg < length lg')
         \<and> length lg \<le> length lg'"
  using assms
proof (induction rt a mx h ad n c col lg arbitrary: r lg' rule: paginate.induct)
  case (1 rt a mx h ad n c col lg)
  show ?case
  proof (cases "n < maxIterations")
    case False
    with "1.prems" show ?thesis by (simp add: paginate.simps)
  next
    case True
    obtain t e where lb: "loop_body rt a mx h ad n c col = (t, e)"
      by (cases "loop_body rt a mx h ad n c col") auto
    show ?thesis
    proof (cases t)
      case (Break r')
      with True lb "1.prems" show ?thesis by (auto simp: paginate.simps)
    next
      case (Continue c2 col2)
      with True lb "1.prems" have rec: "paginate rt a mx h ad (Suc n) c2 col2 (lg @ [e]) = (r, lg')"
        by (simp add: paginate.simps)
      from "1.IH" [OF True lb [symmetric] Continue rec] True show ?thesis by auto
    qed
  qed
qed

lemma loop_body_error:
  assumes "loop_body rt a mx h ad n c col = (Break (Inl err), e)"
  shows "\<not> succeeded (snd e)"
  using assms
  by (auto simp: loop_body_def fetchMessageBatch_def Let_def
      split: prod.splits sum.splits option.splits if_splits response.splits)

lemma paginate_error:
  assumes "paginate rt a mx h ad n c col lg = (Inl err, lg')"
  shows "\<exists>e \<in> set lg'. \<not> succeeded (snd e)"
  using assms
proof (induction rt a mx h ad n c col lg arbitrary: lg' rule: paginate.induct)
  case (1 rt a mx h ad n c col lg)
  show ?case
  proof (cases "n < maxIterations")
    case False
    with "1.prems" show ?thesis by (simp add: paginate.simps)
  next
    case True
    obtain t e where lb: "loop_body rt a mx h ad n c col = (t, e)"
      by (cases "loop_body rt a mx h ad n c col") auto
    show ?thesis
    proof (cases t)
      case (Break r')
      with True lb "1.prems" have "r' = Inl err" "lg' = lg @ [e]"
        by (simp_all add: paginate.simps)
      with lb Break loop_body_error [of rt a mx h ad n c col err e] show ?thesis by auto
    next
      case (Continue c2 col2)
      with True lb "1.prems" have rec: "paginate rt a mx h ad (Suc n) c2 col2 (lg @ [e]) = (Inl err, lg')"
        by (simp add: paginate.simps)
      from "1.IH" [OF True lb [symmetric] Continue rec] show ?thesis .
    qed
  qed
qed

lemma js_keep_twice: "0 < n \<Longrightarrow> js_keep n (js_keep n xs) = js_keep n xs"
  by (simp add: js_keep_def)

lemma js_keep_pos: "0 < n \<Longrightarrow> js_keep n xs = take (nat n) xs"
  by (simp add: js_keep_def)

lemma set_js_keep: "set (js_keep n xs) \<subseteq> set xs"
  by (auto simp: js_keep_def dest: in_set_takeD)

lemma in_range_summarize: "in_range rt ad (summarizeMessage m) = in_range rt ad m"
  by (simp add: in_range_def summarizeMessage_def field_def)

text \<open>The after path, unfolded.\<close>

lemma executeFunction_after:
  assumes "after a = Some t" "t \<noteq> []" "toDate rt (JStr t) = Date T"
    and "paginate rt a (max_of a) headers (Date T) 0
           (case beforeMessage a of None \<Rightarrow> JUndefined | Some c \<Rightarrow> JStr c) [] [] = (Inr col, lg)"
  shows "executeFunction rt (Inr headers) a =
           (let limited = (if max_of a \<noteq> 0 then js_keep (max_of a) col else col)
            in ([(''items'', JArr (map JObj (if summarize a = Some False then limited
                                            else map summarizeMessage limited))),
                 (''count'', JNum (int (length limited))),
                 (''filtered'', JBool True),
                 (''afterFilter'', JStr t)], lg))"
  using assms
  by (auto simp: executeFunction_def max_of_def Let_def split: option.splits)

lemma executeFunction_after_error:
  assumes "after a = Some t" "t \<noteq> []" "toDate rt (JStr t) = Date T"
    and "paginate rt a (max_of a) headers (Date T) 0
           (case beforeMessage a of None \<Rightarrow> JUndefined | Some c \<Rightarrow> JStr c) [] [] = (Inl e, lg)"
  shows "executeFunction rt (Inr headers) a = (error_result e, lg)"
  using assms
  by (auto simp: executeFunction_def max_of_def Let_def split: option.splits)

lemma paginate_result:
  obtains (err) e lg where "paginate rt a mx h ad n c col lg0 = (Inl e, lg)"
        | (ok) col' lg where "paginate rt a mx h ad n c col lg0 = (Inr col', lg)"
proof (cases "paginate rt a mx h ad n c col lg0")
  case (Pair x lg)
  then show thesis by (cases x) (auto intro: err ok)
qed

text \<open>
  Claim C2, as amended. Called with a parsable \<open>after\<close> bound \<open>T\<close> and a limit
  \<open>M > 0\<close> (the default 50 when \<open>max\<close> is left out), and every fetch succeeding, the tool
  returns the first \<open>M\<close> messages of the longest prefix of the fetched stream (the batches
  in the order they were fetched, each in the order the API gave it) whose \<open>created\<close> dates
  are not before \<open>T\<close>, summarised or not: so only items with \<open>created >= T\<close>, in upstream order,
  never more than \<open>M\<close>, with \<open>count\<close> their number. Every batch but the last fetched one
  consists of such messages only: once a batch holds a message that is not, nothing more is
  fetched.
\<close>

theorem listSince_items:
  assumes aft: "after a = Some t" "t \<noteq> []" "toDate rt (JStr t) = Date T"
    and mx: "0 < max_of a"
    and run: "executeFunction rt (Inr headers) a = (r, lg)"
    and ok: "\<forall>e \<in> set lg. succeeded (snd e)"
  shows "\<exists>its. its = take (nat (max_of a)) (takeWhile (in_range rt (Date T)) (concat (map batch_of lg)))
           \<and> returned_items r = Some (if summarize a = Some False then its else map summarizeMessage its)
           \<and> (\<forall>x \<in> set (the (returned_items r)). in_range rt (Date T) x)
           \<and> field r ''count'' = JNum (int (length its))
           \<and> int (length its) \<le> max_of a
           \<and> (\<forall>b \<in> set (butlast (map batch_of lg)). list_all (in_range rt (Date T)) b)"
proof -
  let ?P = "in_range rt (Date T)"
  let ?c0 = "case beforeMessage a of None \<Rightarrow> JUndefined | Some c \<Rightarrow> JStr c"
  show ?thesis
  proof (cases rule: paginate_result [of rt a "max_of a" headers "Date T" 0 ?c0 "[]" "[]"])
    case (err e lg1)
    from executeFunction_after_error [OF aft err] run have "lg1 = lg" by simp
    with paginate_error [OF err] ok show ?thesis by auto
  next
    case (ok col lg1)
    from executeFunction_after [OF aft ok] run mx
    have r: "r = [(''items'', JArr (map JObj (if summarize a = Some False then js_keep (max_of a) col
                                            else map summarizeMessage (js_keep (max_of a) col)))),
                 (''count'', JNum (int (length (js_keep (max_of a) col)))),
                 (''filtered'', JBool True),
                 (''afterFilter'', JStr t)]" and lg: "lg1 = lg"
      by (simp_all add: Let_def)
    from paginate_collect [OF ok] lg
    have bl: "\<forall>b \<in> set (butlast (map batch_of lg)). list_all ?P b"
      and col: "col = takeWhile ?P (concat (map batch_of lg))
                \<or> col = js_keep (max_of a) (takeWhile ?P (concat (map batch_of lg)))"
      by auto
    define its where "its = take (nat (max_of a)) (takeWhile ?P (concat (map batch_of lg)))"
    from col mx have keep: "js_keep (max_of a) col = its"
      by (auto simp: its_def js_keep_twice js_keep_pos)
    have inr: "\<forall>x \<in> set its. ?P x"
      unfolding its_def by (auto dest!: in_set_takeD set_takeWhileD)
    have len: "int (length its) \<le> max_of a"
      unfolding its_def using mx by simp
    have ri: "returned_items r = Some (if summarize a = Some False then its else map summarizeMessage its)"
      unfolding r keep by (simp add: returned_items_def field_def comp_def)
    have cnt: "field r ''count'' = JNum (int (length its))"
      unfolding r keep by (simp add: field_def)
    from inr have inr': "\<forall>x \<in> set (the (returned_items r)). ?P x"
      unfolding ri by (auto simp: in_range_summarize)
    from ri inr' cnt len bl show ?thesis
      unfolding its_def by blast
  qed
qed

text \<open>A run for C2: two recent messages and an older one upstream, a limit of one.\<close>

theorem listSince_items_witness:
  "after (ex_args (Some ''2024-01-27T00:00:00Z'') (Some 1)) = Some ''2024-01-27T00:00:00Z''
   \<and> toDate (ex_runtime [ex_new, ex_new, ex_old]) (JStr ''2024-01-27T00:00:00Z'') = Date 1706313600000
   \<and> 0 < max_of (ex_args (Some ''2024-01-27T00:00:00Z'') (Some 1))
   \<and> returned_items (fst (executeFunction (ex_runtime [ex_new, ex_new, ex_old]) (Inr ex_headers)
          (ex_args (Some ''2024-01-27T00:00:00Z'') (Some 1)))) = Some [summarizeMessage ex_new]
   \<and> field (fst (executeFunction (ex_runtime [ex_new, ex_new, ex_old]) (Inr ex_headers)
          (ex_args (Some ''2024-01-27T00:00:00Z'') (Some 1)))) ''count'' = JNum 1"
proof -
  let ?a = "ex_args (Some ''2024-01-27T00:00:00Z'') (Some 1)"
  let ?rt = "ex_runtime [ex_new, ex_new, ex_old]"
  let ?t = "''2024-01-27T00:00:00Z''"
  obtain r lg where run: "executeFunction ?rt (Inr ex_headers) ?a = (r, lg)"
    by (cases "executeFunction ?rt (Inr ex_headers) ?a") auto
  have lg: "lg = snd (executeFunction ?rt (Inr ex_headers) ?a)"
    using run by simp
  have h1: "after ?a = Some ?t" by (simp add: ex_args_def)
  have h2: "?t \<noteq> []" by simp
  have h3: "toDate ?rt (JStr ?t) = Date 1706313600000" by (simp add: ex_runtime_def ex_toDate_def)
  have h4: "0 < max_of ?a" by (simp add: max_of_def ex_args_def)
  have h5: "\<forall>e \<in> set lg. succeeded (snd e)"
    unfolding lg by code_simp
  have tw: "take (nat (max_of ?a)) (takeWhile (in_range ?rt (Date 1706313600000)) (concat (map batch_of lg)))
            = [ex_new]"
    unfolding lg by code_simp
  have s: "summarize ?a \<noteq> Some False" by (simp add: ex_args_def)
  from listSince_items [OF h1 h2 h3 h4 run h5] tw s
  have "returned_items r = Some [summarizeMessage ex_new] \<and> field r ''count'' = JNum 1"
    by simp
  with h1 h3 h4 run show ?thesis by simp
qed

text \<open>
  Claim C2 as stated fails at the limit \<open>M = 0\<close>: the tool takes \<open>max = 0\<close> for "no limit"
  and returns the one message in range.
\<close>

theorem listSince_max_zero_counterexample:
  "max_arg (ex_args (Some ''2024-01-27T00:00:00Z'') (Some 0)) = Some 0
   \<and> field (fst (executeFunction (ex_runtime [ex_new]) (Inr ex_headers)
               (ex_args (Some ''2024-01-27T00:00:00Z'') (Some 0)))) ''count'' = JNum 1
   \<and> map (\<lambda>m. field m ''id'') (the (returned_items (fst (executeFunction (ex_runtime [ex_new]) (Inr ex_headers)
               (ex_args (Some ''2024-01-27T00:00:00Z'') (Some 0)))))) = [JStr ''m1'']"
  by code_simp

text \<open>
  Claim C3, as amended. Called with a parsable \<open>after\<close> bound, and every fetch succeeding,
  the tool returns an object with exactly the properties \<open>items\<close>, \<open>count\<close>, \<open>filtered\<close> and
  \<open>afterFilter\<close>: \<open>count\<close> is the number of items, \<open>filtered\<close> is \<open>true\<close>, \<open>afterFilter\<close> is
  the \<open>after\<close> argument, and there is no \<open>truncatedByMax\<close> property.
\<close>

theorem listSince_shape:
  assumes aft: "after a = Some t" "t \<noteq> []" "toDate rt (JStr t) = Date T"
    and run: "executeFunction rt (Inr headers) a = (r, lg)"
    and ok: "\<forall>e \<in> set lg. succeeded (snd e)"
  shows "map fst r = [''items'', ''count'', ''filtered'', ''afterFilter'']
         \<and> (\<exists>its. returned_items r = Some its \<and> field r ''count'' = JNum (int (length its)))
         \<and> field r ''filtered'' = JBool True
         \<and> field r ''afterFilter'' = JStr t
         \<and> field r ''truncatedByMax'' = JUndefined"
proof -
  let ?c0 = "case beforeMessage a of None \<Rightarrow> JUndefined | Some c \<Rightarrow> JStr c"
  show ?thesis
  proof (cases rule: paginate_result [of rt a "max_of a" headers "Date T" 0 ?c0 "[]" "[]"])
    case (err e lg1)
    from executeFunction_after_error [OF aft err] run have "lg1 = lg" by simp
    with paginate_error [OF err] ok show ?thesis by auto
  next
    case (ok col lg1)
    from executeFunction_after [OF aft ok] run show ?thesis
      by (auto simp: Let_def returned_items_def field_def comp_def)
  qed
qed

text \<open>A run for C3.\<close>

theorem listSince_shape_witness:
  "after (ex_args (Some ''2024-01-27T00:00:00Z'') (Some 1)) = Some ''2024-01-27T00:00:00Z''
   \<and> toDate (ex_runtime [ex_new, ex_new, ex_old]) (JStr ''2024-01-27T00:00:00Z'') = Date 1706313600000
   \<and> list_all (\<lambda>e. succeeded (snd e)) (snd (executeFunction (ex_runtime [ex_new, ex_new, ex_old])
          (Inr ex_headers) (ex_args (Some ''2024-01-27T00:00:00Z'') (Some 1))))
   \<and> map fst (fst (executeFunction (ex_runtime [ex_new, ex_new, ex_old]) (Inr ex_headers)
          (ex_args (Some ''2024-01-27T00:00:00Z'') (Some 1))))
       = [''items'', ''count'', ''filtered'', ''afterFilter'']"
proof -
  let ?a = "ex_args (Some ''2024-01-27T00:00:00Z'') (Some 1)"
  let ?rt = "ex_runtime [ex_new, ex_new, ex_old]"
  let ?t = "''2024-01-27T00:00:00Z''"
  have run: "executeFunction ?rt (Inr ex_headers) ?a
             = (fst (executeFunction ?rt (Inr ex_headers) ?a), snd (executeFunction ?rt (Inr ex_headers) ?a))"
    by simp
  have h1: "after ?a = Some ?t" by (simp add: ex_args_def)
  have h2: "?t \<noteq> []" by simp
  have h3: "toDate ?rt (JStr ?t) = Date 1706313600000" by (simp add: ex_runtime_def ex_toDate_def)
  have h5: "\<forall>e \<in> set (snd (executeFunction ?rt (Inr ex_headers) ?a)). succeeded (snd e)"
    by code_simp
  from listSince_shape [OF h1 h2 h3 run h5] h1 h3 h5 show ?thesis
    unfolding list_all_iff by blast
qed

text \<open>
  Claim C3 as stated fails: two messages are in range, the limit of one cuts the result, and
  the returned object has no \<open>truncatedByMax\<close> flag that is \<open>true\<close>.
\<close>

theorem listSince_no_truncation_flag_counterexample:
  "length (takeWhile (in_range (ex_runtime [ex_new, ex_new, ex_old]) (Date 1706313600000)) [ex_new, ex_new, ex_old]) = 2
   \<and> field (fst (executeFunction (ex_runtime [ex_new, ex_new, ex_old]) (Inr ex_headers)
          (ex_args (Some ''2024-01-27T00:00:00Z'') (Some 1)))) ''count'' = JNum 1
   \<and> map fst (fst (executeFunction (ex_runtime [ex_new, ex_new, ex_old]) (Inr ex_headers)
          (ex_args (Some ''2024-01-27T00:00:00Z'') (Some 1))))
       = [''items'', ''count'', ''filtered'', ''afterFilter'']
   \<and> field (fst (executeFunction (ex_runtime [ex_new, ex_new, ex_old]) (Inr ex_headers)
          (ex_args (Some ''2024-01-27T00:00:00Z'') (Some 1)))) ''truncatedByMax'' \<noteq> JBool True"
  by code_simp

lemma executeFunction_no_after:
  assumes "\<not> truthy_str (after a)"
  shows "length (snd (executeFunction rt (Inr headers) a)) = 1"
  using assms
  by (auto simp: executeFunction_def Let_def split: prod.splits sum.splits)

text \<open>
  Claim C4, as amended. Without an \<open>after\<close> bound the tool makes exactly one request,
  whatever comes back. With a parsable \<open>after\<close> bound it makes at least one request and at
  most twenty, whatever \<open>max\<close> is: \<open>max = 0\<close> does not stop the loop.
\<close>

theorem fetch_count:
  "(\<not> truthy_str (after a) \<longrightarrow> length (snd (executeFunction rt (Inr headers) a)) = 1)
   \<and> (truthy_str (after a) \<and> \<not> isNaN_getTime (toDate rt (JStr (the (after a))))
        \<longrightarrow> 1 \<le> length (snd (executeFunction rt (Inr headers) a))
            \<and> length (snd (executeFunction rt (Inr headers) a)) \<le> 20)"
proof (intro conjI impI)
  assume "\<not> truthy_str (after a)"
  then show "length (snd (executeFunction rt (Inr headers) a)) = 1"
    by (rule executeFunction_no_after)
next
  assume h: "truthy_str (after a) \<and> \<not> isNaN_getTime (toDate rt (JStr (the (after a))))"
  let ?c0 = "case beforeMessage a of None \<Rightarrow> JUndefined | Some c \<Rightarrow> JStr c"
  let ?ad = "toDate rt (JStr (the (after a)))"
  obtain res lg where p: "paginate rt a (max_of a) headers ?ad 0 ?c0 [] [] = (res, lg)"
    by (cases "paginate rt a (max_of a) headers ?ad 0 ?c0 [] []") auto
  from paginate_log_length [OF p] have len: "1 \<le> length lg \<and> length lg \<le> 20"
    by (cases lg) (auto simp: maxIterations_def)
  from h p have "snd (executeFunction rt (Inr headers) a) = lg"
    by (auto simp: executeFunction_def max_of_def Let_def split: option.splits sum.splits)
  with len show "1 \<le> length (snd (executeFunction rt (Inr headers) a))"
    and "length (snd (executeFunction rt (Inr headers) a)) \<le> 20"
    by simp_all
qed

text \<open>Runs for C4: a full batch of a hundred messages upstream, without and with a bound.\<close>

theorem fetch_count_witness:
  "\<not> truthy_str (after (ex_args None (Some 0)))
   \<and> length (snd (executeFunction (ex_runtime (replicate 100 ex_new)) (Inr ex_headers) (ex_args None (Some 0)))) = 1
   \<and> truthy_str (after (ex_args (Some ''2024-01-27T00:00:00Z'') (Some 0)))
   \<and> \<not> isNaN_getTime (toDate (ex_runtime (replicate 100 ex_new))
            (JStr (the (after (ex_args (Some ''2024-01-27T00:00:00Z'') (Some 0))))))
   \<and> length (snd (executeFunction (ex_runtime (replicate 100 ex_new)) (Inr ex_headers)
          (ex_args (Some ''2024-01-27T00:00:00Z'') (Some 0)))) \<le> 20"
proof -
  have h1: "\<not> truthy_str (after (ex_args None (Some 0)))"
    by (simp add: ex_args_def)
  have h2: "truthy_str (after (ex_args (Some ''2024-01-27T00:00:00Z'') (Some 0)))
     \<and> \<not> isNaN_getTime (toDate (ex_runtime (replicate 100 ex_new))
            (JStr (the (after (ex_args (Some ''2024-01-27T00:00:00Z'') (Some 0))))))"
    by (simp add: ex_args_def ex_runtime_def ex_toDate_def)
  from h1 h2
    fetch_count [of "ex_args None (Some 0)" "ex_runtime (replicate 100 ex_new)" ex_headers]
    fetch_count [of "ex_args (Some ''2024-01-27T00:00:00Z'') (Some 0)" "ex_runtime (replicate 100 ex_new)" ex_headers]
  show ?thesis by blast
qed

text \<open>
  Claim C4 as stated fails for \<open>max = 0\<close> with an \<open>after\<close> bound: after a full batch of
  messages in range the tool asks for the next batch.
\<close>

theorem max_zero_fetches_again_counterexample:
  "max_arg (ex_args (Some ''2024-01-27T00:00:00Z'') (Some 0)) = Some 0
   \<and> length (snd (executeFunction (ex_runtime (replicate 100 ex_new)) (Inr ex_headers)
          (ex_args (Some ''2024-01-27T00:00:00Z'') (Some 0)))) = 2"
  by code_simp

text \<open>
  Claim C8, as amended. Called with an \<open>after\<close> argument that is a non-empty string the
  \<open>Date\<close> constructor cannot parse, the tool makes no request and returns an object with
  exactly the properties \<open>error\<close> and \<open>details\<close>: the error that names the invalid \<open>after\<close>
  value when the request headers were available, and the error of the headers otherwise.
  Called with the empty string for \<open>after\<close>, the tool takes it for no bound and makes one
  request.
\<close>

theorem invalid_after_fails_fast:
  "(\<forall>t. after a = Some t \<and> t \<noteq> [] \<and> toDate rt (JStr t) = InvalidDate \<longrightarrow>
       snd (executeFunction rt hdrs a) = []
       \<and> map fst (fst (executeFunction rt hdrs a)) = [''error'', ''details'']
       \<and> (\<forall>headers. hdrs = Inr headers \<longrightarrow>
             fst (executeFunction rt hdrs a) = error_result (new_Error rt (invalid_after_message t))
             \<and> field (fst (executeFunction rt hdrs a)) ''error'' = JStr (invalid_after_message t))
       \<and> (\<forall>e. hdrs = Inl e \<longrightarrow> fst (executeFunction rt hdrs a) = error_result e))
   \<and> (after a = Some [] \<longrightarrow> length (snd (executeFunction rt (Inr hs) a)) = 1)"
proof (intro conjI allI impI)
  fix t
  assume h: "after a = Some t \<and> t \<noteq> [] \<and> toDate rt (JStr t) = InvalidDate"
  then show "snd (executeFunction rt hdrs a) = []"
    and "map fst (fst (executeFunction rt hdrs a)) = [''error'', ''details'']"
    by (cases hdrs; simp add: executeFunction_def Let_def error_result_def)+
  {
    fix headers
    assume "hdrs = Inr headers"
    with h show "fst (executeFunction rt hdrs a) = error_result (new_Error rt (invalid_after_message t))"
      and "field (fst (executeFunction rt hdrs a)) ''error'' = JStr (invalid_after_message t)"
      by (simp_all add: executeFunction_def Let_def error_result_def field_def new_Error_def
            invalid_after_message_def)
  }
  {
    fix e
    assume "hdrs = Inl e"
    then show "fst (executeFunction rt hdrs a) = error_result e"
      by (simp add: executeFunction_def Let_def)
  }
next
  assume "after a = Some []"
  then have "\<not> truthy_str (after a)" by simp
  then show "length (snd (executeFunction rt (Inr hs) a)) = 1"
    by (rule executeFunction_no_after)
qed

text \<open>Runs for C8, with the bound \<open>not-a-date\<close> and with the empty string.\<close>

theorem invalid_after_fails_fast_witness:
  "after (ex_args (Some ''not-a-date'') None) = Some ''not-a-date''
   \<and> toDate (ex_runtime [ex_new]) (JStr ''not-a-date'') = InvalidDate
   \<and> executeFunction (ex_runtime [ex_new]) (Inr ex_headers) (ex_args (Some ''not-a-date'') None)
       = ([(''error'', JStr (invalid_after_message ''not-a-date'')),
           (''details'', JStr (''Error: '' @ invalid_after_message ''not-a-date''))], [])
   \<and> after (ex_args (Some []) None) = Some []
   \<and> length (snd (executeFunction (ex_runtime [ex_new]) (Inr ex_headers) (ex_args (Some []) None))) = 1"
proof -
  have h1: "after (ex_args (Some ''not-a-date'') None) = Some ''not-a-date''"
    by (simp add: ex_args_def)
  have h2: "''not-a-date'' \<noteq> []" by simp
  have h3: "toDate (ex_runtime [ex_new]) (JStr ''not-a-date'') = InvalidDate"
    by (simp add: ex_runtime_def ex_toDate_def)
  have h4: "after (ex_args (Some []) None) = Some []"
    by (simp add: ex_args_def)
  have e: "error_result (new_Error (ex_runtime [ex_new]) (invalid_after_message ''not-a-date''))
       = [(''error'', JStr (invalid_after_message ''not-a-date'')),
           (''details'', JStr (''Error: '' @ invalid_after_message ''not-a-date''))]"
    by (simp add: error_result_def new_Error_def ex_runtime_def invalid_after_message_def)
  from h1 h2 h3
    invalid_after_fails_fast [of "ex_args (Some ''not-a-date'') None" "ex_runtime [ex_new]" "Inr ex_headers"]
  have a: "snd (executeFunction (ex_runtime [ex_new]) (Inr ex_headers) (ex_args (Some ''not-a-date'') None)) = []
    \<and> fst (executeFunction (ex_runtime [ex_new]) (Inr ex_headers) (ex_args (Some ''not-a-date'') None))
        = error_result (new_Error (ex_runtime [ex_new]) (invalid_after_message ''not-a-date''))"
    by blast
  from h4
    invalid_after_fails_fast [of "ex_args (Some []) None" "ex_runtime [ex_new]" _ ex_headers]
  have b: "length (snd (executeFunction (ex_runtime [ex_new]) (Inr ex_headers) (ex_args (Some []) None))) = 1"
    by blast
  from a e have "executeFunction (ex_runtime [ex_new]) (Inr ex_headers) (ex_args (Some ''not-a-date'') None)
       = ([(''error'', JStr (invalid_after_message ''not-a-date'')),
           (''details'', JStr (''Error: '' @ invalid_after_message ''not-a-date''))], [])"
    by (simp add: prod_eq_iff)
  with h1 h3 h4 b show ?thesis by blast
qed

text \<open>
  Claim C8 as stated fails for the empty string, which the \<open>Date\<close> constructor cannot parse
  either: the tool makes one request and returns the messages, with no error. And when the
  request headers are not available, the error returned for \<open>not-a-date\<close> is the one of the
  headers, not one that describes the time bound.
\<close>

theorem empty_after_fetches_counterexample:
  "after (ex_args (Some []) None) = Some []
   \<and> toDate (ex_runtime [ex_new]) (JStr []) = InvalidDate
   \<and> length (snd (executeFunction (ex_runtime [ex_new]) (Inr ex_headers) (ex_args (Some []) None))) = 1
   \<and> field (fst (executeFunction (ex_runtime [ex_new]) (Inr ex_headers) (ex_args (Some []) None))) ''error''
       = JUndefined
   \<and> returned_items (fst (executeFunction (ex_runtime [ex_new]) (Inr ex_headers) (ex_args (Some []) None)))
       = Some [summarizeMessage ex_new]
   \<and> field (fst (executeFunction (ex_runtime [ex_new])
          (Inl (JsError ''Authentication not initialized. Call initializeAuth() first.'' []))
          (ex_args (Some ''not-a-date'') None))) ''error''
       = JStr ''Authentication not initialized. Call initializeAuth() first.''"
  by code_simp

lemma returned_items_error: "returned_items (error_result e) = None"
  by (simp add: returned_items_def error_result_def field_def)

lemma field_filter_items: "field (filter (\<lambda>kv. fst kv \<noteq> ''items'') kvs) ''items'' = JUndefined"
  by (induction kvs) (auto simp: field_def)

lemma returned_items_body:
  "returned_items (body_object data) = items data"
proof (cases "items data")
  case None
  then show ?thesis
    using field_filter_items [of "others data"] by (simp add: returned_items_def body_object_def)
next
  case (Some its)
  then show ?thesis
    by (simp add: returned_items_def body_object_def field_def comp_def)
qed

lemma loop_body_summarize:
  "loop_body rt (a\<lparr>summarize := s\<rparr>) mx h ad n c col = loop_body rt a mx h ad n c col"
  by (simp add: loop_body_def)

lemma paginate_summarize:
  "paginate rt (a\<lparr>summarize := s\<rparr>) mx h ad n c col lg = paginate rt a mx h ad n c col lg"
proof (induction rt a mx h ad n c col lg rule: paginate.induct)
  case (1 rt a mx h ad n c col lg)
  show ?case
  proof (cases "n < maxIterations")
    case False
    then show ?thesis by (simp add: paginate.simps)
  next
    case True
    obtain t e where lb: "loop_body rt a mx h ad n c col = (t, e)"
      by (cases "loop_body rt a mx h ad n c col") auto
    show ?thesis
    proof (cases t)
      case (Break r)
      with True lb show ?thesis
        by (simp add: paginate.simps [of rt a] paginate.simps [of rt "a\<lparr>summarize := s\<rparr>"] loop_body_summarize)
    next
      case (Continue c2 col2)
      from "1.IH" [OF True lb [symmetric] Continue] True lb Continue show ?thesis
        by (simp add: paginate.simps [of rt a _ _ _ n] paginate.simps [of rt "a\<lparr>summarize := s\<rparr>" _ _ _ n]
              loop_body_summarize)
    qed
  qed
qed

lemma executeFunction_default_summarize:
  "executeFunction rt hdrs (a\<lparr>summarize := None\<rparr>) = executeFunction rt hdrs (a\<lparr>summarize := Some True\<rparr>)"
  by (auto simp: executeFunction_def paginate_summarize Let_def split: sum.splits prod.splits)

lemma executeFunction_same_log:
  "snd (executeFunction rt hdrs (a\<lparr>summarize := Some True\<rparr>))
     = snd (executeFunction rt hdrs (a\<lparr>summarize := Some False\<rparr>))"
  by (auto simp: executeFunction_def paginate_summarize Let_def split: sum.splits prod.splits)

lemma returned_items_Cons:
  "returned_items ((''items'', JArr (map JObj xs)) # rest) = Some xs"
  by (simp add: returned_items_def field_def comp_def)

lemma returned_items_Cons_map:
  "returned_items ((''items'', JArr (map (JObj \<circ> f) xs)) # rest) = Some (map f xs)"
  by (simp add: returned_items_def field_def comp_def)

lemma executeFunction_summarized_items:
  "returned_items (fst (executeFunction rt hdrs (a\<lparr>summarize := Some True\<rparr>)))
     = map_option (map summarizeMessage)
         (returned_items (fst (executeFunction rt hdrs (a\<lparr>summarize := Some False\<rparr>))))"
  by (auto simp: executeFunction_def paginate_summarize Let_def returned_items_error returned_items_body
        returned_items_Cons returned_items_Cons_map
      split: sum.splits prod.splits)

lemma paginate_subset:
  assumes "paginate rt a mx h ad 0 c [] [] = (Inr col, lg)"
  shows "set col \<subseteq> set (concat (map batch_of lg))"
proof -
  from paginate_collect [OF assms]
  have "col = takeWhile (in_range rt ad) (concat (map batch_of lg))
        \<or> col = js_keep mx (takeWhile (in_range rt ad) (concat (map batch_of lg)))"
    by auto
  then show ?thesis
    using set_js_keep [of mx "takeWhile (in_range rt ad) (concat (map batch_of lg))"]
      set_takeWhileD [of _ "in_range rt ad" "concat (map batch_of lg)"]
    by blast
qed

lemma executeFunction_raw_items:
  assumes "returned_items (fst (executeFunction rt hdrs (a\<lparr>summarize := Some False\<rparr>))) = Some its"
  shows "set its \<subseteq> set (concat (map batch_of (snd (executeFunction rt hdrs (a\<lparr>summarize := Some False\<rparr>)))))"
proof (cases hdrs)
  case (Inl e)
  with assms show ?thesis
    by (simp add: executeFunction_def returned_items_error)
next
  case (Inr headers)
  let ?a = "a\<lparr>summarize := Some False\<rparr>"
  let ?c0 = "case beforeMessage a of None \<Rightarrow> JUndefined | Some c \<Rightarrow> JStr c"
  show ?thesis
  proof (cases "truthy_str (after a)")
    case False
    obtain res entry where f: "fetchMessageBatch rt 0 (roomId a) (parentId a) (mentionedPeople a) (before a)
           ?c0 (max_of a) headers = (res, entry)"
      by (cases "fetchMessageBatch rt 0 (roomId a) (parentId a) (mentionedPeople a) (before a)
           ?c0 (max_of a) headers") auto
    show ?thesis
    proof (cases res)
      case (Inl e)
      with assms Inr False f show ?thesis
        by (simp add: executeFunction_def max_of_def returned_items_error)
    next
      case (Inr data)
      with assms \<open>hdrs = Inr headers\<close> False f fetch_batch_of [of rt 0 _ _ _ _ _ _ headers data entry]
      show ?thesis
        by (auto simp: executeFunction_def max_of_def returned_items_body)
    qed
  next
    case True
    show ?thesis
    proof (cases "isNaN_getTime (toDate rt (JStr (the (after a))))")
      case nan: True
      with assms Inr True show ?thesis
        by (simp add: executeFunction_def returned_items_error)
    next
      case valid: False
      let ?ad = "toDate rt (JStr (the (after a)))"
      show ?thesis
      proof (cases rule: paginate_result [of rt a "max_of a" headers ?ad 0 ?c0 "[]" "[]"])
        case (err e lg)
        with assms Inr True valid show ?thesis
          by (simp add: executeFunction_def max_of_def paginate_summarize returned_items_error)
      next
        case (ok col lg)
        from paginate_subset [OF ok] have sub: "set col \<subseteq> set (concat (map batch_of lg))" .
        from assms Inr True valid ok
        have "its = col \<or> its = js_keep (max_of a) col"
          and "snd (executeFunction rt hdrs ?a) = lg"
          by (auto simp: executeFunction_def max_of_def paginate_summarize Let_def returned_items_Cons
              split: if_splits)
        with sub set_js_keep [of "max_of a" col] show ?thesis by auto
      qed
    qed
  qed
qed

lemma fetchMessageBatch_entry:
  "snd (fetchMessageBatch rt n (roomId a) (parentId a) (mentionedPeople a) (before a) c mx h)
     = (request_for a c mx h, api rt n (request_for a c mx h))"
  by (simp add: fetchMessageBatch_def request_for_def Let_def)

lemma fetchMessageBatch_ok:
  "api rt n (request_for a c mx h) = HttpOk data \<Longrightarrow>
   fetchMessageBatch rt n (roomId a) (parentId a) (mentionedPeople a) (before a) c mx h
     = (Inr data, (request_for a c mx h, HttpOk data))"
  by (simp add: fetchMessageBatch_def request_for_def Let_def)

lemma loop_body_entry:
  assumes "loop_body rt a mx h ad n c col = (t, e)"
  shows "e = (request_for a c (int batchSize) h, api rt n (request_for a c (int batchSize) h))
         \<and> (\<forall>c2 col2. t = Continue c2 col2 \<longrightarrow> c2 = field (last (batch_of e)) ''id'')"
proof -
  obtain r e' where f: "fetchMessageBatch rt n (roomId a) (parentId a) (mentionedPeople a) (before a) c
      (int batchSize) h = (r, e')"
    by (cases "fetchMessageBatch rt n (roomId a) (parentId a) (mentionedPeople a) (before a) c
      (int batchSize) h")
  from fetchMessageBatch_entry [of rt n a c "int batchSize" h] f
  have e': "e' = (request_for a c (int batchSize) h, api rt n (request_for a c (int batchSize) h))"
    by simp
  show ?thesis
  proof (cases r)
    case (Inl err)
    with assms f e' show ?thesis by (auto simp: loop_body_def)
  next
    case (Inr data)
    from fetch_batch_of [of rt n _ _ _ _ c "int batchSize" h data e'] f Inr
    have b: "batch_of e' = (case items data of None \<Rightarrow> [] | Some its \<Rightarrow> its)" by simp
    from assms f Inr have "e = e'"
      by (auto simp: loop_body_def split: option.splits if_splits prod.splits)
    moreover from assms f Inr b
    have "\<forall>c2 col2. t = Continue c2 col2 \<longrightarrow> c2 = field (last (batch_of e')) ''id''"
      by (auto simp: loop_body_def split: option.splits if_splits prod.splits)
    ultimately show ?thesis using e' by simp
  qed
qed

lemma api_log_append:
  "api_log rt a h n c [e] \<Longrightarrow> api_log rt a h (Suc n) (field (last (batch_of e)) ''id'') rest
     \<Longrightarrow> api_log rt a h n c (e # rest)"
  by simp

lemma paginate_api_log:
  assumes "paginate rt a mx h ad n c col lg = (r, lg')"
  shows "\<exists>new. lg' = lg @ new \<and> api_log rt a h n c new"
  using assms
proof (induction rt a mx h ad n c col lg arbitrary: r lg' rule: paginate.induct)
  case (1 rt a mx h ad n c col lg)
  show ?case
  proof (cases "n < maxIterations")
    case False
    with "1.prems" have "lg' = lg" by (simp add: paginate.simps)
    then show ?thesis by simp
  next
    case True
    obtain t e where lb: "loop_body rt a mx h ad n c col = (t, e)"
      by (cases "loop_body rt a mx h ad n c col") auto
    note en = loop_body_entry [OF lb]
    show ?thesis
    proof (cases t)
      case (Break r')
      with True lb "1.prems" have "lg' = lg @ [e]" by (simp add: paginate.simps)
      with en show ?thesis by (intro exI [of _ "[e]"]) simp
    next
      case (Continue c2 col2)
      with True lb "1.prems" have rec: "paginate rt a mx h ad (Suc n) c2 col2 (lg @ [e]) = (r, lg')"
        by (simp add: paginate.simps)
      from "1.IH" [OF True lb [symmetric] Continue rec]
      obtain new where new: "lg' = (lg @ [e]) @ new" "api_log rt a h (Suc n) c2 new" by blast
      from en Continue have c2: "c2 = field (last (batch_of e)) ''id''" by simp
      from new en c2 show ?thesis by (intro exI [of _ "e # new"]) simp
    qed
  qed
qed

lemma executeFunction_single_fetch:
  assumes "\<not> truthy_str (after a)"
    and "api rt 0 (request_for a (first_cursor a) (max_of a) headers) = HttpOk data"
  shows "executeFunction rt (Inr headers) a
           = (body_object (if summarize a = Some False then data
                           else data\<lparr>items := map_option (map summarizeMessage) (items data)\<rparr>),
              [(request_for a (first_cursor a) (max_of a) headers, HttpOk data)])"
  using assms fetchMessageBatch_ok [of rt 0 a "first_cursor a" "max_of a" headers data]
  by (auto simp: executeFunction_def Let_def max_of_def first_cursor_def split: option.splits)

lemma executeFunction_paginated:
  assumes aft: "after a = Some t" "t \<noteq> []" "toDate rt (JStr t) = Date T"
  shows "snd (executeFunction rt (Inr headers) a) \<noteq> []
         \<and> api_log rt a headers 0 (first_cursor a) (snd (executeFunction rt (Inr headers) a))
         \<and> (list_all (\<lambda>e. succeeded (snd e)) (snd (executeFunction rt (Inr headers) a)) \<longrightarrow>
              (\<exists>col. returned_items (fst (executeFunction rt (Inr headers) a))
                        = Some (if summarize a = Some False
                                then (if max_of a \<noteq> 0 then js_keep (max_of a) col else col)
                                else map summarizeMessage
                                       (if max_of a \<noteq> 0 then js_keep (max_of a) col else col))
                 \<and> (col = takeWhile (in_range rt (Date T))
                            (concat (map batch_of (snd (executeFunction rt (Inr headers) a))))
                      \<or> (max_of a \<noteq> 0
                          \<and> col = js_keep (max_of a) (takeWhile (in_range rt (Date T))
                              (concat (map batch_of (snd (executeFunction rt (Inr headers) a)))))))))"
proof -
  let ?c0 = "case beforeMessage a of None \<Rightarrow> JUndefined | Some c \<Rightarrow> JStr c"
  have c0: "?c0 = first_cursor a" by (simp add: first_cursor_def)
  show ?thesis
  proof (cases rule: paginate_result [of rt a "max_of a" headers "Date T" 0 ?c0 "[]" "[]"])
    case (err e lg)
    from executeFunction_after_error [OF aft err]
    have ex: "executeFunction rt (Inr headers) a = (error_result e, lg)" .
    from paginate_api_log [OF err] paginate_log_length [OF err] paginate_error [OF err]
    show ?thesis
      unfolding ex c0 by (auto simp: maxIterations_def list_all_iff)
  next
    case (ok col lg)
    from executeFunction_after [OF aft ok]
    have ex: "executeFunction rt (Inr headers) a =
           ([(''items'', JArr (map JObj (if summarize a = Some False
                                         then (if max_of a \<noteq> 0 then js_keep (max_of a) col else col)
                                         else map summarizeMessage
                                                (if max_of a \<noteq> 0 then js_keep (max_of a) col else col)))),
             (''count'', JNum (int (length (if max_of a \<noteq> 0 then js_keep (max_of a) col else col)))),
             (''filtered'', JBool True),
             (''afterFilter'', JStr t)], lg)"
      by (simp add: Let_def)
    from paginate_collect [OF ok]
    have col: "col = takeWhile (in_range rt (Date T)) (concat (map batch_of lg))
                \<or> (max_of a \<noteq> 0
                    \<and> col = js_keep (max_of a) (takeWhile (in_range rt (Date T)) (concat (map batch_of lg))))"
      by auto
    have ri: "returned_items (fst (executeFunction rt (Inr headers) a))
                = Some (if summarize a = Some False
                        then (if max_of a \<noteq> 0 then js_keep (max_of a) col else col)
                        else map summarizeMessage
                               (if max_of a \<noteq> 0 then js_keep (max_of a) col else col))"
      unfolding ex by (simp add: returned_items_Cons)
    from paginate_api_log [OF ok] paginate_log_length [OF ok]
    have lg: "lg \<noteq> []" "api_log rt a headers 0 (first_cursor a) lg"
      unfolding c0 by (auto simp: maxIterations_def)
    from lg ri col show ?thesis
      unfolding ex by (intro conjI impI exI [of _ col]) simp_all
  qed
qed

text \<open>
  With \<open>max = 0\<close> no limit applies: the returned items are the whole in-range prefix of the
  fetched stream.
\<close>

lemma listSince_no_limit:
  assumes "after a = Some t" "t \<noteq> []" "toDate rt (JStr t) = Date T"
    and "max_of a = 0"
    and "list_all (\<lambda>e. succeeded (snd e)) (snd (executeFunction rt (Inr headers) a))"
  shows "returned_items (fst (executeFunction rt (Inr headers) a))
           = Some (if summarize a = Some False
                   then takeWhile (in_range rt (Date T))
                          (concat (map batch_of (snd (executeFunction rt (Inr headers) a))))
                   else map summarizeMessage
                          (takeWhile (in_range rt (Date T))
                             (concat (map batch_of (snd (executeFunction rt (Inr headers) a))))))"
  using executeFunction_paginated [OF assms(1-3), of headers] assms(4,5)
  by auto

text \<open>
  Claim C10. A summary has exactly the seven properties, each with the value the message has
  for it; leaving \<open>summarize\<close> out is asking for summaries. Without an \<open>after\<close> bound the tool
  makes the one request for its arguments, and when the API answers it with a body, the tool
  returns that body, its items summarised one by one, or, with \<open>summarize\<close> false, as they
  are. With a parsable \<open>after\<close> bound the log is the API's account of the run, starting from
  the first request, and when every fetch succeeded the returned items are the collected
  messages of that log (its in-range prefix, cut to the limit), summarised one by one or as
  they are. In both cases summarising changes neither the requests made nor which messages
  are returned, and without summaries every returned item is a message of a fetched batch.
\<close>

theorem summarize_items:
  "map fst (summarizeMessage m)
     = [''id'', ''personEmail'', ''personId'', ''created'', ''text'', ''parentId'', ''roomType'']
   \<and> field (summarizeMessage m) ''id'' = field m ''id''
   \<and> field (summarizeMessage m) ''personEmail'' = field m ''personEmail''
   \<and> field (summarizeMessage m) ''personId'' = field m ''personId''
   \<and> field (summarizeMessage m) ''created'' = field m ''created''
   \<and> field (summarizeMessage m) ''text'' = field m ''text''
   \<and> field (summarizeMessage m) ''parentId'' = field m ''parentId''
   \<and> field (summarizeMessage m) ''roomType'' = field m ''roomType''
   \<and> executeFunction rt hdrs (a\<lparr>summarize := None\<rparr>) = executeFunction rt hdrs (a\<lparr>summarize := Some True\<rparr>)
   \<and> (\<not> truthy_str (after a) \<longrightarrow>
        (\<forall>data. api rt 0 (request_for a (first_cursor a) (max_of a) headers) = HttpOk data \<longrightarrow>
           executeFunction rt (Inr headers) a
             = (body_object (if summarize a = Some False then data
                             else data\<lparr>items := map_option (map summarizeMessage) (items data)\<rparr>),
                [(request_for a (first_cursor a) (max_of a) headers, HttpOk data)])
           \<and> returned_items (fst (executeFunction rt (Inr headers) a))
               = (if summarize a = Some False then items data
                  else map_option (map summarizeMessage) (items data))))
   \<and> (\<forall>t T. after a = Some t \<and> t \<noteq> [] \<and> toDate rt (JStr t) = Date T \<longrightarrow>
         snd (executeFunction rt (Inr headers) a) \<noteq> []
         \<and> api_log rt a headers 0 (first_cursor a) (snd (executeFunction rt (Inr headers) a))
         \<and> (list_all (\<lambda>e. succeeded (snd e)) (snd (executeFunction rt (Inr headers) a)) \<longrightarrow>
              (\<exists>col. returned_items (fst (executeFunction rt (Inr headers) a))
                        = Some (if summarize a = Some False
                                then (if max_of a \<noteq> 0 then js_keep (max_of a) col else col)
                                else map summarizeMessage
                                       (if max_of a \<noteq> 0 then js_keep (max_of a) col else col))
                 \<and> (col = takeWhile (in_range rt (Date T))
                            (concat (map batch_of (snd (executeFunction rt (Inr headers) a))))
                      \<or> (max_of a \<noteq> 0
                          \<and> col = js_keep (max_of a) (takeWhile (in_range rt (Date T))
                              (concat (map batch_of (snd (executeFunction rt (Inr headers) a))))))))))
   \<and> snd (executeFunction rt hdrs (a\<lparr>summarize := Some True\<rparr>))
       = snd (executeFunction rt hdrs (a\<lparr>summarize := Some False\<rparr>))
   \<and> returned_items (fst (executeFunction rt hdrs (a\<lparr>summarize := Some True\<rparr>)))
       = map_option (map summarizeMessage)
           (returned_items (fst (executeFunction rt hdrs (a\<lparr>summarize := Some False\<rparr>))))
   \<and> (\<forall>its. returned_items (fst (executeFunction rt hdrs (a\<lparr>summarize := Some False\<rparr>))) = Some its
         \<longrightarrow> set its \<subseteq> set (concat (map batch_of (snd (executeFunction rt hdrs (a\<lparr>summarize := Some False\<rparr>))))))"
proof -
  have fields: "map fst (summarizeMessage m)
     = [''id'', ''personEmail'', ''personId'', ''created'', ''text'', ''parentId'', ''roomType'']
   \<and> field (summarizeMessage m) ''id'' = field m ''id''
   \<and> field (summarizeMessage m) ''personEmail'' = field m ''personEmail''
   \<and> field (summarizeMessage m) ''personId'' = field m ''personId''
   \<and> field (summarizeMessage m) ''created'' = field m ''created''
   \<and> field (summarizeMessage m) ''text'' = field m ''text''
   \<and> field (summarizeMessage m) ''parentId'' = field m ''parentId''
   \<and> field (summarizeMessage m) ''roomType'' = field m ''roomType''"
    by (simp add: summarizeMessage_def field_def)
  have single: "\<not> truthy_str (after a) \<longrightarrow>
        (\<forall>data. api rt 0 (request_for a (first_cursor a) (max_of a) headers) = HttpOk data \<longrightarrow>
           executeFunction rt (Inr headers) a
             = (body_object (if summarize a = Some False then data
                             else data\<lparr>items := map_option (map summarizeMessage) (items data)\<rparr>),
                [(request_for a (first_cursor a) (max_of a) headers, HttpOk data)])
           \<and> returned_items (fst (executeFunction rt (Inr headers) a))
               = (if summarize a = Some False then items data
                  else map_option (map summarizeMessage) (items data)))"
  proof (intro impI allI)
    fix data
    assume h: "\<not> truthy_str (after a)"
      "api rt 0 (request_for a (first_cursor a) (max_of a) headers) = HttpOk data"
    from executeFunction_single_fetch [OF h]
    show "executeFunction rt (Inr headers) a
             = (body_object (if summarize a = Some False then data
                             else data\<lparr>items := map_option (map summarizeMessage) (items data)\<rparr>),
                [(request_for a (first_cursor a) (max_of a) headers, HttpOk data)])
           \<and> returned_items (fst (executeFunction rt (Inr headers) a))
               = (if summarize a = Some False then items data
                  else map_option (map summarizeMessage) (items data))"
      by (simp add: returned_items_body)
  qed
  from fields single executeFunction_default_summarize [of rt hdrs a]
    executeFunction_paginated [of a _ rt _ headers]
    executeFunction_same_log [of rt hdrs a]
    executeFunction_summarized_items [of rt hdrs a] executeFunction_raw_items [of rt hdrs a]
  show ?thesis by blast
qed

text \<open>
  Runs for C10: two messages upstream, returned summarised by default and as they are on
  request; and a run with a bound, whose log is the API's.
\<close>

theorem summarize_items_witness:
  "\<not> truthy_str (after (ex_args None None))
   \<and> api (ex_runtime [ex_new, ex_old]) 0
        (request_for (ex_args None None) (first_cursor (ex_args None None)) (max_of (ex_args None None)) ex_headers)
       = HttpOk \<lparr> items = Some [ex_new, ex_old], others = [] \<rparr>
   \<and> returned_items (fst (executeFunction (ex_runtime [ex_new, ex_old]) (Inr ex_headers) (ex_args None None)))
       = Some [summarizeMessage ex_new, summarizeMessage ex_old]
   \<and> returned_items (fst (executeFunction (ex_runtime [ex_new, ex_old]) (Inr ex_headers)
       ((ex_args None None)\<lparr>summarize := Some False\<rparr>))) = Some [ex_new, ex_old]
   \<and> after (ex_args (Some ''2024-01-27T00:00:00Z'') None) = Some ''2024-01-27T00:00:00Z''
   \<and> toDate (ex_runtime [ex_new, ex_old]) (JStr ''2024-01-27T00:00:00Z'') = Date 1706313600000
   \<and> snd (executeFunction (ex_runtime [ex_new, ex_old]) (Inr ex_headers)
         (ex_args (Some ''2024-01-27T00:00:00Z'') None)) \<noteq> []
   \<and> api_log (ex_runtime [ex_new, ex_old]) (ex_args (Some ''2024-01-27T00:00:00Z'') None) ex_headers 0
        (first_cursor (ex_args (Some ''2024-01-27T00:00:00Z'') None))
        (snd (executeFunction (ex_runtime [ex_new, ex_old]) (Inr ex_headers)
           (ex_args (Some ''2024-01-27T00:00:00Z'') None)))"
proof -
  let ?rt = "ex_runtime [ex_new, ex_old]"
  let ?a = "ex_args None None"
  let ?raw = "(ex_args None None)\<lparr>summarize := Some False\<rparr>"
  let ?b = "ex_args (Some ''2024-01-27T00:00:00Z'') None"
  have h1: "\<not> truthy_str (after ?a)" "\<not> truthy_str (after ?raw)"
    by (simp_all add: ex_args_def)
  have h2: "api ?rt 0 (request_for ?a (first_cursor ?a) (max_of ?a) ex_headers)
              = HttpOk \<lparr> items = Some [ex_new, ex_old], others = [] \<rparr>"
    "api ?rt 0 (request_for ?raw (first_cursor ?raw) (max_of ?raw) ex_headers)
              = HttpOk \<lparr> items = Some [ex_new, ex_old], others = [] \<rparr>"
    by (simp_all add: ex_runtime_def)
  have s: "summarize ?a \<noteq> Some False" "summarize ?raw = Some False"
    by (simp_all add: ex_args_def)
  have h3: "after ?b = Some ''2024-01-27T00:00:00Z''"
    by (simp add: ex_args_def)
  have h4: "toDate ?rt (JStr ''2024-01-27T00:00:00Z'') = Date 1706313600000"
    by (simp add: ex_runtime_def ex_toDate_def)
  have h5: "''2024-01-27T00:00:00Z'' \<noteq> []" by simp
  let ?data = "\<lparr> items = Some [ex_new, ex_old], others = [] \<rparr>"
  from h1(1) h2(1) summarize_items [where a = ?a and rt = ?rt and headers = ex_headers
      and m = ex_new and hdrs = "Inr ex_headers"]
  have "returned_items (fst (executeFunction ?rt (Inr ex_headers) ?a))
       = (if summarize ?a = Some False then items ?data
          else map_option (map summarizeMessage) (items ?data))"
    by blast
  with s(1) have r1: "returned_items (fst (executeFunction ?rt (Inr ex_headers) ?a))
       = Some [summarizeMessage ex_new, summarizeMessage ex_old]"
    by simp
  from h1(2) h2(2) summarize_items [where a = ?raw and rt = ?rt and headers = ex_headers
      and m = ex_new and hdrs = "Inr ex_headers"]
  have "returned_items (fst (executeFunction ?rt (Inr ex_headers) ?raw))
       = (if summarize ?raw = Some False then items ?data
          else map_option (map summarizeMessage) (items ?data))"
    by blast
  with s(2) have r2: "returned_items (fst (executeFunction ?rt (Inr ex_headers) ?raw)) = Some [ex_new, ex_old]"
    by simp
  from h3 h4 h5 summarize_items [where a = ?b and rt = ?rt and headers = ex_headers
      and m = ex_new and hdrs = "Inr ex_headers"]
  have r3: "snd (executeFunction ?rt (Inr ex_headers) ?b) \<noteq> []
    \<and> api_log ?rt ?b ex_headers 0 (first_cursor ?b) (snd (executeFunction ?rt (Inr ex_headers) ?b))"
    by blast
  from h1(1) h2(1) h3 h4 r1 r2 r3 show ?thesis by blast
qed


section \<open>Properties of the token manager\<close>


lemma scheduleRefresh_Date:
  "scheduleRefresh (Date e) w =
     w\<lparr>timers := filter (\<lambda>t. Some (handle t) \<noteq> refreshTimeout w) (timers w)
                    @ [\<lparr>handle = nextHandle w,
                        callback = (if e - 1800000 \<le> clock w then ImmediateRefresh else ScheduledRefresh),
                        delay = Some (if e - 1800000 \<le> clock w then 1000 else e - 1800000 - clock w),
                        set_at = clock w\<rparr>],
       nextHandle := Suc (nextHandle w),
       refreshTimeout := Some (nextHandle w)\<rparr>"
  by (cases "refreshTimeout w")
     (auto simp: scheduleRefresh_def setTimeout_def clearTimeout_def Let_def
        REFRESH_BEFORE_EXPIRY_MINUTES_def)

text \<open>
  Scheduling for a token that expires at \<open>E\<close> cancels the timer the manager holds and sets
  one new timer: the immediate refresh when \<open>E - 30 minutes\<close> is not after the current time,
  the scheduled refresh otherwise.
\<close>

lemma scheduleRefresh_timer:
  "\<exists>t. timers (scheduleRefresh (Date e) w)
          = filter (\<lambda>t. Some (handle t) \<noteq> refreshTimeout w) (timers w) @ [t]
       \<and> refreshTimeout (scheduleRefresh (Date e) w) = Some (handle t)
       \<and> set_at t = clock w
       \<and> (e - REFRESH_BEFORE_EXPIRY_MINUTES * 60 * 1000 \<le> clock w
            \<longrightarrow> callback t = ImmediateRefresh \<and> delay t = Some 1000)
       \<and> (clock w < e - REFRESH_BEFORE_EXPIRY_MINUTES * 60 * 1000
            \<longrightarrow> callback t = ScheduledRefresh
              \<and> delay t = Some (e - REFRESH_BEFORE_EXPIRY_MINUTES * 60 * 1000 - clock w)
              \<and> set_at t + the (delay t) = e - REFRESH_BEFORE_EXPIRY_MINUTES * 60 * 1000)
       \<and> 0 < the (delay t)"
  by (simp add: scheduleRefresh_Date REFRESH_BEFORE_EXPIRY_MINUTES_def)

lemma fetches_scheduleRefresh [simp]: "fetches (scheduleRefresh d w) = fetches w"
  by (auto simp: scheduleRefresh_def setTimeout_def clearTimeout_def Let_def
      split: option.splits jsdate.splits)

lemma fetches_storeToken [simp]: "fetches (snd (storeToken rt token d w)) = fetches w"
  by (auto simp: storeToken_def addToKeychain_def deleteFromKeychain_def
      split: jsdate.splits prod.splits sum.splits option.splits)

lemma fetches_tick [simp]: "fetches (tick d w) = fetches w"
  by (simp add: tick_def)

lemma fetches_run_callback [simp]: "fetches (run_callback cb t w) = fetches w"
  by (cases cb) simp

lemma fetches_forceRefresh_settle [simp]:
  "fetches (snd (forceRefresh_settle rt ms fetched w)) = fetches w"
proof (cases fetched)
  case (Inl e)
  then show ?thesis by (simp add: forceRefresh_settle_def)
next
  case (Inr p)
  obtain token d where p: "p = (token, d)" by (cases p)
  obtain r w1 where st: "storeToken rt token d w = (r, w1)" by (cases "storeToken rt token d w")
  from fetches_storeToken [of rt token d w] st have f: "fetches w1 = fetches w" by simp
  show ?thesis
    using Inr p st f
    by (cases r; cases d) (auto simp: forceRefresh_settle_def Let_def split: option.splits)
qed

lemma fetches_forceRefresh: "fetches (snd (forceRefresh rt c w)) = Suc (fetches w)"
  by (simp add: forceRefresh_def forceRefresh_start_def tick_def)

lemma forceRefresh_settle_token:
  assumes "fst (forceRefresh_settle rt ms fetched w) = Inr t"
  shows "\<exists>e. fetched = Inr (t, e)"
proof (cases fetched)
  case (Inl e)
  with assms show ?thesis by (simp add: forceRefresh_settle_def)
next
  case (Inr p)
  obtain token d where p: "p = (token, d)" by (cases p)
  obtain r w1 where st: "storeToken rt token d w = (r, w1)" by (cases "storeToken rt token d w")
  show ?thesis
    using assms Inr p st
    by (cases r; cases d) (auto simp: forceRefresh_settle_def Let_def split: option.splits)
qed

lemma forceRefresh_token:
  "fst (forceRefresh rt c w) = Inr t \<Longrightarrow> \<exists>e. browser c = Inr (t, e)"
  unfolding forceRefresh_def by (rule forceRefresh_settle_token)

lemma cache_valid_Date:
  "cache_valid w \<Longrightarrow> \<exists>t e. cachedToken w = Some t \<and> t \<noteq> [] \<and> tokenExpiresAt w = Some (Date e) \<and> clock w < e"
proof -
  assume cv: "cache_valid w"
  then obtain t where t: "cachedToken w = Some t" "t \<noteq> []"
    by (cases "cachedToken w") (auto simp: cache_valid_def)
  from cv obtain d where d: "tokenExpiresAt w = Some d" "date_gt d (Date (clock w))"
    by (cases "tokenExpiresAt w") (auto simp: cache_valid_def)
  from d(2) obtain e where "d = Date e" "clock w < e"
    by (cases d) auto
  with t d show ?thesis by blast
qed

lemma date_gt_Date: "date_gt d (Date n) \<Longrightarrow> \<exists>e. d = Date e \<and> n < e"
  by (cases d) auto

lemma getValidToken_cached:
  "cache_valid w \<Longrightarrow> getValidToken rt c w = (Inr (the (cachedToken w)), w)"
  by (simp add: getValidToken_def)

lemma getValidToken_stored:
  assumes "\<not> cache_valid w" "loadToken rt w = Some (token, expiresAt)"
    "date_gt expiresAt (Date (clock w + int (keychain_ms c)))"
  shows "getValidToken rt c w
           = (Inr token, scheduleRefresh expiresAt
                ((tick (keychain_ms c) w)\<lparr>cachedToken := Some token, tokenExpiresAt := Some expiresAt\<rparr>))"
  using assms by (simp add: getValidToken_def Let_def tick_def)

lemma getValidToken_refresh:
  assumes "\<not> cache_valid w"
    "\<not> (\<exists>token expiresAt. loadToken rt w = Some (token, expiresAt)
           \<and> date_gt expiresAt (Date (clock w + int (keychain_ms c))))"
  shows "getValidToken rt c w = forceRefresh rt c (tick (keychain_ms c) w)"
  using assms by (auto simp: getValidToken_def Let_def tick_def split: option.splits)

lemma scheduleRefresh_fields:
  "date_gt d (Date n) \<Longrightarrow>
     cachedToken (scheduleRefresh d w) = cachedToken w
     \<and> tokenExpiresAt (scheduleRefresh d w) = tokenExpiresAt w
     \<and> clock (scheduleRefresh d w) = clock w
     \<and> refreshTimeout (scheduleRefresh d w) = Some (nextHandle w)
     \<and> nextHandle w \<in> handle ` set (timers (scheduleRefresh d w))"
  by (cases d) (auto simp: scheduleRefresh_Date)

lemma storeToken_frame:
  "clock (snd (storeToken rt token d w)) = clock w"
  "onTokenRefreshed (snd (storeToken rt token d w)) = onTokenRefreshed w"
  by (auto simp: storeToken_def addToKeychain_def deleteFromKeychain_def
      split: jsdate.splits prod.splits sum.splits option.splits)

lemma storeToken_Date:
  "fst (storeToken rt token d w) = Inr u \<Longrightarrow> \<exists>e. d = Date e"
  by (cases d) (auto simp: storeToken_def split: if_splits prod.splits sum.splits)

lemma run_callback_frame:
  "cachedToken (case x of Some cb \<Rightarrow> run_callback cb token w | None \<Rightarrow> w) = cachedToken w"
  "tokenExpiresAt (case x of Some cb \<Rightarrow> run_callback cb token w | None \<Rightarrow> w) = tokenExpiresAt w"
  "clock (case x of Some cb \<Rightarrow> run_callback cb token w | None \<Rightarrow> w) = clock w"
  "timers (case x of Some cb \<Rightarrow> run_callback cb token w | None \<Rightarrow> w) = timers w"
  "refreshTimeout (case x of Some cb \<Rightarrow> run_callback cb token w | None \<Rightarrow> w) = refreshTimeout w"
  by (cases x; cases "the x"; simp)+

lemma scheduleRefresh_frame:
  "cachedToken (scheduleRefresh (Date e) w) = cachedToken w"
  "tokenExpiresAt (scheduleRefresh (Date e) w) = tokenExpiresAt w"
  "clock (scheduleRefresh (Date e) w) = clock w"
  by (simp_all add: scheduleRefresh_Date)

lemma forceRefresh_settle_success:
  assumes "fst (forceRefresh_settle rt ms fetched w) = Inr t"
  shows "\<exists>e w1. fetched = Inr (t, Date e)
           \<and> storeToken rt t (Date e) w = (Inr (), w1)
           \<and> cachedToken (snd (forceRefresh_settle rt ms fetched w)) = Some t
           \<and> tokenExpiresAt (snd (forceRefresh_settle rt ms fetched w)) = Some (Date e)
           \<and> clock (snd (forceRefresh_settle rt ms fetched w)) = clock w + int ms
           \<and> timers (snd (forceRefresh_settle rt ms fetched w))
               = timers (scheduleRefresh (Date e)
                   ((tick ms w1)\<lparr>cachedToken := Some t, tokenExpiresAt := Some (Date e)\<rparr>))
           \<and> refreshTimeout (snd (forceRefresh_settle rt ms fetched w))
               = refreshTimeout (scheduleRefresh (Date e)
                   ((tick ms w1)\<lparr>cachedToken := Some t, tokenExpiresAt := Some (Date e)\<rparr>))"
proof (cases fetched)
  case (Inl e)
  with assms show ?thesis by (simp add: forceRefresh_settle_def)
next
  case (Inr p)
  obtain token d where p: "p = (token, d)" by (cases p)
  obtain r w1 where st: "storeToken rt token d w = (r, w1)" by (cases "storeToken rt token d w")
  from storeToken_frame(1) [of rt token d w] st have ck: "clock w1 = clock w" by simp
  show ?thesis
  proof (cases r)
    case (Inl e)
    with assms Inr p st show ?thesis by (simp add: forceRefresh_settle_def)
  next
    case r: (Inr u)
    from storeToken_Date [of rt token d w u] st r obtain e where d: "d = Date e" by auto
    from assms Inr p st r d have t: "t = token"
      by (simp add: forceRefresh_settle_def Let_def)
    show ?thesis
      using Inr p st r d t ck
      by (simp add: forceRefresh_settle_def Let_def run_callback_frame scheduleRefresh_frame tick_def)
  qed
qed

lemma forceRefresh_success:
  assumes "fst (forceRefresh rt c w) = Inr t"
  shows "\<exists>e. browser c = Inr (t, Date e)
           \<and> cachedToken (snd (forceRefresh rt c w)) = Some t
           \<and> tokenExpiresAt (snd (forceRefresh rt c w)) = Some (Date e)
           \<and> clock (snd (forceRefresh rt c w)) = clock w + int (browser_ms c) + int (keychain_ms c)"
  using forceRefresh_settle_success [of rt "keychain_ms c" "browser c" "tick (browser_ms c) (forceRefresh_start w)" t] assms
  by (auto simp: forceRefresh_def tick_def forceRefresh_start_def)

lemma getValidToken_fresh:
  assumes fresh: "fresh_login c (clock w + int (keychain_ms c))"
    and r: "fst (getValidToken rt c w) = Inr t"
  shows "cachedToken (snd (getValidToken rt c w)) = Some t
         \<and> (\<exists>e. tokenExpiresAt (snd (getValidToken rt c w)) = Some (Date e)
               \<and> clock (snd (getValidToken rt c w)) < e)"
proof (cases "cache_valid w")
  case True
  from cache_valid_Date [OF True] r getValidToken_cached [OF True, of rt c]
  show ?thesis by auto
next
  case ncv: False
  show ?thesis
  proof (cases "\<exists>token expiresAt. loadToken rt w = Some (token, expiresAt)
                 \<and> date_gt expiresAt (Date (clock w + int (keychain_ms c)))")
    case True
    then obtain token expiresAt where st: "loadToken rt w = Some (token, expiresAt)"
      "date_gt expiresAt (Date (clock w + int (keychain_ms c)))"
      by blast
    let ?w2 = "(tick (keychain_ms c) w)\<lparr>cachedToken := Some token, tokenExpiresAt := Some expiresAt\<rparr>"
    from getValidToken_stored [OF ncv st]
    have g: "getValidToken rt c w = (Inr token, scheduleRefresh expiresAt ?w2)" .
    from date_gt_Date [OF st(2)] obtain e where e: "expiresAt = Date e" "clock w + int (keychain_ms c) < e"
      by blast
    from scheduleRefresh_fields [OF st(2), of ?w2] r g e show ?thesis
      by (auto simp: tick_def)
  next
    case False
    with ncv getValidToken_refresh [of w rt c]
    have g: "getValidToken rt c w = forceRefresh rt c (tick (keychain_ms c) w)" by blast
    from forceRefresh_success [of rt c "tick (keychain_ms c) w" t] r g
    obtain e where e: "browser c = Inr (t, Date e)"
      "cachedToken (snd (getValidToken rt c w)) = Some t"
      "tokenExpiresAt (snd (getValidToken rt c w)) = Some (Date e)"
      "clock (snd (getValidToken rt c w)) = clock w + int (keychain_ms c) + int (browser_ms c) + int (keychain_ms c)"
      by (auto simp: tick_def)
    from fresh e(1) have "clock w + int (keychain_ms c) + int (browser_ms c) + int (keychain_ms c) < e"
      by (simp add: fresh_login_def)
    with e show ?thesis by simp
  qed
qed





text \<open>
  Claim C1. \<open>getValidToken()\<close> resolves in this order. If the cached token is there and
  its expiry is in the future, that token is returned and nothing changes (no fetch).
  Otherwise, if the keychain holds a record whose expiry is in the future once it has been
  read, its token is returned, the record is now the cache, a refresh timer is pending and
  held, and no fetch was made. Otherwise the call is \<open>forceRefresh()\<close>, which makes exactly
  one fetch. A token from the cache or from the keychain is returned only with its expiry in
  the future, whatever the login does; and with a fresh login, every token \<open>getValidToken()\<close>
  returns is the cached one, with its expiry after the time of the return.
\<close>

theorem getValidToken_resolution:
  "(cache_valid w \<longrightarrow> getValidToken rt c w = (Inr (the (cachedToken w)), w))
   \<and> (\<not> cache_valid w \<longrightarrow>
        (\<forall>token expiresAt.
           loadToken rt w = Some (token, expiresAt)
           \<and> date_gt expiresAt (Date (clock w + int (keychain_ms c))) \<longrightarrow>
             fst (getValidToken rt c w) = Inr token
             \<and> cachedToken (snd (getValidToken rt c w)) = Some token
             \<and> tokenExpiresAt (snd (getValidToken rt c w)) = Some expiresAt
             \<and> (\<exists>t \<in> set (timers (snd (getValidToken rt c w))).
                   refreshTimeout (snd (getValidToken rt c w)) = Some (handle t))
             \<and> fetches (snd (getValidToken rt c w)) = fetches w))
   \<and> (\<not> cache_valid w
        \<and> \<not> (\<exists>token expiresAt. loadToken rt w = Some (token, expiresAt)
                 \<and> date_gt expiresAt (Date (clock w + int (keychain_ms c)))) \<longrightarrow>
          getValidToken rt c w = forceRefresh rt c (tick (keychain_ms c) w)
          \<and> fetches (snd (getValidToken rt c w)) = Suc (fetches w))
   \<and> (\<forall>t. fst (getValidToken rt c w) = Inr t \<longrightarrow>
          (\<exists>e. browser c = Inr (t, e))
          \<or> (cachedToken (snd (getValidToken rt c w)) = Some t
              \<and> (\<exists>e. tokenExpiresAt (snd (getValidToken rt c w)) = Some (Date e)
                    \<and> clock (snd (getValidToken rt c w)) < e)))
   \<and> (fresh_login c (clock w + int (keychain_ms c)) \<longrightarrow>
        (\<forall>t. fst (getValidToken rt c w) = Inr t \<longrightarrow>
           cachedToken (snd (getValidToken rt c w)) = Some t
           \<and> (\<exists>e. tokenExpiresAt (snd (getValidToken rt c w)) = Some (Date e)
                 \<and> clock (snd (getValidToken rt c w)) < e)))"
proof (intro conjI impI allI)
  fix t
  assume fresh: "fresh_login c (clock w + int (keychain_ms c))"
    and r: "fst (getValidToken rt c w) = Inr t"
  from getValidToken_fresh [OF fresh r]
  show "cachedToken (snd (getValidToken rt c w)) = Some t"
    and "\<exists>e. tokenExpiresAt (snd (getValidToken rt c w)) = Some (Date e)
           \<and> clock (snd (getValidToken rt c w)) < e"
    by simp_all
next
  assume "cache_valid w"
  then show "getValidToken rt c w = (Inr (the (cachedToken w)), w)"
    by (rule getValidToken_cached)
next
  fix token expiresAt
  assume ncv: "\<not> cache_valid w"
    and st: "loadToken rt w = Some (token, expiresAt)
             \<and> date_gt expiresAt (Date (clock w + int (keychain_ms c)))"
  let ?w2 = "(tick (keychain_ms c) w)\<lparr>cachedToken := Some token, tokenExpiresAt := Some expiresAt\<rparr>"
  from getValidToken_stored [OF ncv] st
  have g: "getValidToken rt c w = (Inr token, scheduleRefresh expiresAt ?w2)"
    by simp
  from st scheduleRefresh_fields [of expiresAt _ ?w2]
  have f: "cachedToken (scheduleRefresh expiresAt ?w2) = Some token"
    "tokenExpiresAt (scheduleRefresh expiresAt ?w2) = Some expiresAt"
    "refreshTimeout (scheduleRefresh expiresAt ?w2) = Some (nextHandle ?w2)"
    "nextHandle ?w2 \<in> handle ` set (timers (scheduleRefresh expiresAt ?w2))"
    by auto
  show "fst (getValidToken rt c w) = Inr token" by (simp add: g)
  show "cachedToken (snd (getValidToken rt c w)) = Some token" by (simp add: g f)
  show "tokenExpiresAt (snd (getValidToken rt c w)) = Some expiresAt" by (simp add: g f)
  show "\<exists>t \<in> set (timers (snd (getValidToken rt c w))).
          refreshTimeout (snd (getValidToken rt c w)) = Some (handle t)"
    using f(3,4) by (auto simp: g)
  show "fetches (snd (getValidToken rt c w)) = fetches w" by (simp add: g)
next
  assume h: "\<not> cache_valid w
        \<and> \<not> (\<exists>token expiresAt. loadToken rt w = Some (token, expiresAt)
                 \<and> date_gt expiresAt (Date (clock w + int (keychain_ms c))))"
  then have g: "getValidToken rt c w = forceRefresh rt c (tick (keychain_ms c) w)"
    using getValidToken_refresh [of w rt c] by blast
  show "getValidToken rt c w = forceRefresh rt c (tick (keychain_ms c) w)" by (rule g)
  show "fetches (snd (getValidToken rt c w)) = Suc (fetches w)"
    by (simp add: g fetches_forceRefresh)
next
  fix t
  assume r: "fst (getValidToken rt c w) = Inr t"
  show "(\<exists>e. browser c = Inr (t, e))
          \<or> (cachedToken (snd (getValidToken rt c w)) = Some t
              \<and> (\<exists>e. tokenExpiresAt (snd (getValidToken rt c w)) = Some (Date e)
                    \<and> clock (snd (getValidToken rt c w)) < e))"
  proof (cases "cache_valid w")
    case True
    from cache_valid_Date [OF True] r getValidToken_cached [OF True, of rt c]
    show ?thesis by auto
  next
    case ncv: False
    show ?thesis
    proof (cases "\<exists>token expiresAt. loadToken rt w = Some (token, expiresAt)
                 \<and> date_gt expiresAt (Date (clock w + int (keychain_ms c)))")
      case True
      then obtain token expiresAt where st: "loadToken rt w = Some (token, expiresAt)"
        "date_gt expiresAt (Date (clock w + int (keychain_ms c)))"
        by blast
      let ?w2 = "(tick (keychain_ms c) w)\<lparr>cachedToken := Some token, tokenExpiresAt := Some expiresAt\<rparr>"
      from getValidToken_stored [OF ncv st]
      have g: "getValidToken rt c w = (Inr token, scheduleRefresh expiresAt ?w2)" .
      from date_gt_Date [OF st(2)] obtain e where e: "expiresAt = Date e" "clock w + int (keychain_ms c) < e"
        by blast
      from scheduleRefresh_fields [OF st(2), of ?w2] r g e show ?thesis
        by (auto simp: tick_def)
    next
      case False
      with ncv getValidToken_refresh [of w rt c]
      have "getValidToken rt c w = forceRefresh rt c (tick (keychain_ms c) w)" by blast
      with r forceRefresh_token [of rt c "tick (keychain_ms c) w" t] show ?thesis by simp
    qed
  qed
qed

text \<open>
  Runs for C1: a restarted process adopts the token of the keychain without a fetch; a fresh
  process makes one fetch, and its fresh login gives the token it returns, good for twelve
  hours at the time of the return.
\<close>

theorem getValidToken_resolution_witness:
  "\<not> cache_valid ex_restarted
   \<and> loadToken ex_host ex_restarted = Some (''t1'', Date 43200000)
   \<and> date_gt (Date 43200000) (Date (clock ex_restarted + int (keychain_ms ex_failure)))
   \<and> fst (getValidToken ex_host ex_failure ex_restarted) = Inr ''t1''
   \<and> cachedToken (snd (getValidToken ex_host ex_failure ex_restarted)) = Some ''t1''
   \<and> tokenExpiresAt (snd (getValidToken ex_host ex_failure ex_restarted)) = Some (Date 43200000)
   \<and> fetches (snd (getValidToken ex_host ex_failure ex_restarted)) = fetches ex_restarted
   \<and> \<not> cache_valid ex_world
   \<and> loadToken ex_host ex_world = None
   \<and> fetches (snd (getValidToken ex_host (ex_login ''t1'' 43200000) ex_world)) = Suc (fetches ex_world)
   \<and> fresh_login (ex_login ''t1'' 43200000)
         (clock ex_world + int (keychain_ms (ex_login ''t1'' 43200000)))
   \<and> fst (getValidToken ex_host (ex_login ''t1'' 43200000) ex_world) = Inr ''t1''
   \<and> cachedToken (snd (getValidToken ex_host (ex_login ''t1'' 43200000) ex_world)) = Some ''t1''
   \<and> tokenExpiresAt (snd (getValidToken ex_host (ex_login ''t1'' 43200000) ex_world))
       = Some (Date 43200000)
   \<and> clock (snd (getValidToken ex_host (ex_login ''t1'' 43200000) ex_world)) = 3010"
proof -
  have h1: "\<not> cache_valid ex_restarted"
    by (simp add: cache_valid_def ex_restarted_def ex_world_def)
  have h2: "loadToken ex_host ex_restarted = Some (''t1'', Date 43200000)"
    by code_simp
  have h3: "date_gt (Date 43200000) (Date (clock ex_restarted + int (keychain_ms ex_failure)))"
    by (simp add: ex_restarted_def ex_world_def ex_failure_def)
  have h4: "\<not> cache_valid ex_world"
    by (simp add: cache_valid_def ex_world_def)
  have h5: "loadToken ex_host ex_world = None"
    by code_simp
  from h1 h2 h3 getValidToken_resolution [of ex_restarted ex_host ex_failure]
  have a: "fst (getValidToken ex_host ex_failure ex_restarted) = Inr ''t1''
   \<and> cachedToken (snd (getValidToken ex_host ex_failure ex_restarted)) = Some ''t1''
   \<and> tokenExpiresAt (snd (getValidToken ex_host ex_failure ex_restarted)) = Some (Date 43200000)
   \<and> fetches (snd (getValidToken ex_host ex_failure ex_restarted)) = fetches ex_restarted"
    by blast
  have h6: "\<not> (\<exists>token expiresAt. loadToken ex_host ex_world = Some (token, expiresAt)
      \<and> date_gt expiresAt (Date (clock ex_world + int (keychain_ms (ex_login ''t1'' 43200000)))))"
    using h5 by simp
  from h4 h6 getValidToken_resolution [of ex_world ex_host "ex_login ''t1'' 43200000"]
  have b: "fetches (snd (getValidToken ex_host (ex_login ''t1'' 43200000) ex_world)) = Suc (fetches ex_world)"
    by blast
  have h7: "fresh_login (ex_login ''t1'' 43200000)
         (clock ex_world + int (keychain_ms (ex_login ''t1'' 43200000)))"
    by (simp add: fresh_login_def ex_login_def ex_world_def)
  have h8: "fst (getValidToken ex_host (ex_login ''t1'' 43200000) ex_world) = Inr ''t1''"
    by code_simp
  have h9: "tokenExpiresAt (snd (getValidToken ex_host (ex_login ''t1'' 43200000) ex_world))
       = Some (Date 43200000)"
    "clock (snd (getValidToken ex_host (ex_login ''t1'' 43200000) ex_world)) = 3010"
    by code_simp+
  from h7 h8 getValidToken_resolution [of ex_world ex_host "ex_login ''t1'' 43200000"]
  have d: "cachedToken (snd (getValidToken ex_host (ex_login ''t1'' 43200000) ex_world)) = Some ''t1''"
    by blast
  from h1 h2 h3 h4 h5 a b h7 h8 h9 d show ?thesis by blast
qed

text \<open>
  What a timer callback does when its \<open>forceRefresh()\<close> fails at the browser login: the
  callback of the scheduled refresh sets the retry, five minutes ahead, without cancelling
  anything; the two others change nothing.
\<close>

lemma settle_failure:
  assumes "cb \<in> set (awaiting w)"
  shows "settle rt cb ms (Inl e) w =
           (case cb of
              ScheduledRefresh \<Rightarrow>
                w\<lparr>awaiting := remove1 cb (awaiting w),
                  timers := timers w @ [\<lparr>handle = nextHandle w, callback = RetryRefresh,
                                           delay = Some 300000, set_at = clock w\<rparr>],
                  nextHandle := Suc (nextHandle w),
                  refreshTimeout := Some (nextHandle w)\<rparr>
            | ImmediateRefresh \<Rightarrow> w\<lparr>awaiting := remove1 cb (awaiting w)\<rparr>
            | RetryRefresh \<Rightarrow> w\<lparr>awaiting := remove1 cb (awaiting w)\<rparr>)"
  by (cases cb) (use assms in \<open>simp_all add: settle_def forceRefresh_settle_def setTimeout_def retry_ms_def\<close>)

text \<open>
  Claim C5, where the code departs from it. A token good for ten minutes gets the immediate
  refresh; when that refresh fails, no timer is pending afterwards: there is no retry. A
  token good for twelve hours gets the scheduled refresh; when that one fails, the retry is
  pending, with a delay of five minutes.
\<close>

theorem immediate_refresh_failure_no_retry:
  "map (\<lambda>t. (handle t, callback t, delay t))
       (timers (snd (forceRefresh ex_host (ex_login ''t1'' 600000) ex_world)))
     = [(0, ImmediateRefresh, Some 1000)]
   \<and> timers (timer_fires ex_host ex_failure 0
         (snd (forceRefresh ex_host (ex_login ''t1'' 600000) ex_world))) = []
   \<and> map (\<lambda>t. (handle t, callback t, delay t))
       (timers (snd (forceRefresh ex_host (ex_login ''t1'' 43200000) ex_world)))
     = [(0, ScheduledRefresh, Some 41396995)]
   \<and> map (\<lambda>t. (handle t, callback t, delay t))
       (timers (timer_fires ex_host ex_failure 0
         (snd (forceRefresh ex_host (ex_login ''t1'' 43200000) ex_world))))
     = [(1, RetryRefresh, Some 300000)]"
  by code_simp

text \<open>
  As long as the operations do not overlap (each runs to its end before the next one starts,
  a timer's callback included), they keep the timer invariant, and two calls of
  \<open>forceRefresh()\<close> in succession leave exactly one pending timer.
\<close>

lemma one_timer_cases:
  "one_timer w \<Longrightarrow> timers w = [] \<or> (\<exists>t. timers w = [t] \<and> refreshTimeout w = Some (handle t))"
  by (cases "timers w") (auto simp: one_timer_def)

lemma one_timer_scheduleRefresh:
  assumes "one_timer w"
  shows "one_timer (scheduleRefresh d w) \<and> length (timers (scheduleRefresh d w)) = 1"
  using one_timer_cases [OF assms]
  by (cases d; cases "refreshTimeout w")
     (auto simp: one_timer_def scheduleRefresh_def setTimeout_def clearTimeout_def Let_def)

lemma timers_storeToken [simp]:
  "timers (snd (storeToken rt token d w)) = timers w"
  "refreshTimeout (snd (storeToken rt token d w)) = refreshTimeout w"
  by (auto simp: storeToken_def addToKeychain_def deleteFromKeychain_def
      split: jsdate.splits prod.splits sum.splits option.splits)

lemma one_timer_frame:
  "timers w' = timers w \<Longrightarrow> refreshTimeout w' = refreshTimeout w \<Longrightarrow> one_timer w' = one_timer w"
  by (simp add: one_timer_def)

lemma one_timer_forceRefresh_settle:
  assumes "one_timer w"
  shows "one_timer (snd (forceRefresh_settle rt ms fetched w))
         \<and> (\<forall>t. fst (forceRefresh_settle rt ms fetched w) = Inr t
               \<longrightarrow> length (timers (snd (forceRefresh_settle rt ms fetched w))) = 1)
         \<and> (\<forall>e. fst (forceRefresh_settle rt ms fetched w) = Inl e
               \<longrightarrow> timers (snd (forceRefresh_settle rt ms fetched w)) = timers w
                 \<and> refreshTimeout (snd (forceRefresh_settle rt ms fetched w)) = refreshTimeout w)"
proof (cases fetched)
  case (Inl e)
  with assms show ?thesis by (simp add: forceRefresh_settle_def)
next
  case (Inr p)
  obtain token d where p: "p = (token, d)" by (cases p)
  obtain r w1 where st: "storeToken rt token d w = (r, w1)" by (cases "storeToken rt token d w")
  from timers_storeToken [of rt token d w] st
  have f: "timers w1 = timers w" "refreshTimeout w1 = refreshTimeout w" by simp_all
  show ?thesis
  proof (cases r)
    case (Inl e)
    with Inr p st f assms show ?thesis
      by (simp add: forceRefresh_settle_def tick_def one_timer_def)
  next
    case r: (Inr u)
    let ?w2 = "(tick ms w1)\<lparr>cachedToken := Some token, tokenExpiresAt := Some d\<rparr>"
    from assms f have "one_timer ?w2" by (simp add: one_timer_def tick_def)
    from one_timer_scheduleRefresh [OF this, of d]
    have s: "one_timer (scheduleRefresh d ?w2)" "length (timers (scheduleRefresh d ?w2)) = 1"
      by simp_all
    have cb: "\<And>w. one_timer (case onTokenRefreshed w of Some cb \<Rightarrow> run_callback cb token w | None \<Rightarrow> w) = one_timer w"
      "\<And>w. timers (case onTokenRefreshed w of Some cb \<Rightarrow> run_callback cb token w | None \<Rightarrow> w) = timers w"
      subgoal for w by (cases "onTokenRefreshed w"; cases "the (onTokenRefreshed w)") (auto simp: one_timer_def)
      subgoal for w by (cases "onTokenRefreshed w"; cases "the (onTokenRefreshed w)") auto
      done
    have st_d: "d \<noteq> InvalidDate"
      using st r by (auto simp: storeToken_def split: if_splits prod.splits sum.splits jsdate.splits)
    show ?thesis
      using Inr p st r s cb st_d
      by (cases d) (simp_all add: forceRefresh_settle_def Let_def)
  qed
qed

lemma one_timer_forceRefresh:
  assumes "one_timer w"
  shows "one_timer (snd (forceRefresh rt c w))
         \<and> (\<forall>t. fst (forceRefresh rt c w) = Inr t \<longrightarrow> length (timers (snd (forceRefresh rt c w))) = 1)"
proof -
  from assms have "one_timer (tick (browser_ms c) (forceRefresh_start w))"
    by (simp add: one_timer_def tick_def forceRefresh_start_def)
  from one_timer_forceRefresh_settle [OF this, of rt "keychain_ms c" "browser c"]
  show ?thesis by (simp add: forceRefresh_def)
qed

lemma one_timer_getValidToken:
  assumes "one_timer w"
  shows "one_timer (snd (getValidToken rt c w))"
proof -
  have t: "one_timer (tick (keychain_ms c) w)"
    using assms by (simp add: one_timer_def tick_def)
  have a: "\<And>token d. one_timer (scheduleRefresh d ((tick (keychain_ms c) w)\<lparr>cachedToken := Some token, tokenExpiresAt := Some d\<rparr>))"
    using t by (intro conjunct1 [OF one_timer_scheduleRefresh]) (simp add: one_timer_def)
  from assms t a one_timer_forceRefresh [OF t, of rt c] show ?thesis
    by (auto simp: getValidToken_def Let_def split: option.splits)
qed

lemma one_timer_clearCachedToken:
  assumes "one_timer w"
  shows "timers (clearCachedToken c w) = [] \<and> one_timer (clearCachedToken c w)"
  using one_timer_cases [OF assms]
  by (cases "refreshTimeout w")
     (auto simp: one_timer_def clearCachedToken_def clearToken_def deleteFromKeychain_def
        clearTimeout_def tick_def Let_def)

lemma one_timer_timer_fires:
  assumes "one_timer w"
  shows "one_timer (timer_fires rt c h w)"
proof (cases "find (\<lambda>t. handle t = h) (timers w)")
  case None
  with assms show ?thesis by (simp add: timer_fires_def)
next
  case (Some t)
  then have "timers w \<noteq> []" by auto
  with one_timer_cases [OF assms] obtain t' where t': "timers w = [t']" by auto
  with Some have tt: "t' = t" "handle t = h" by (auto split: if_splits)
  let ?w1 = "(tick (browser_ms c) (fire h w))\<lparr>awaiting := remove1 (callback t) (awaiting (tick (browser_ms c) (fire h w)))\<rparr>"
  have tm: "timers ?w1 = []"
    using Some t' tt by (simp add: fire_def tick_def forceRefresh_start_def clearTimeout_def)
  then have o1: "one_timer ?w1" by (simp add: one_timer_def)
  have aw: "callback t \<in> set (awaiting (tick (browser_ms c) (fire h w)))"
    using Some by (simp add: fire_def tick_def forceRefresh_start_def clearTimeout_def)
  obtain r w2 where fs: "forceRefresh_settle rt (keychain_ms c) (browser c) ?w1 = (r, w2)"
    by (cases "forceRefresh_settle rt (keychain_ms c) (browser c) ?w1")
  from one_timer_forceRefresh_settle [OF o1, of rt "keychain_ms c" "browser c"] fs tm
  have w2: "one_timer w2" "\<And>e. r = Inl e \<Longrightarrow> timers w2 = []"
    by auto
  show ?thesis
  proof (cases r)
    case (Inr tok)
    with Some aw fs w2 show ?thesis by (simp add: timer_fires_def settle_def)
  next
    case (Inl e)
    with Some aw fs w2 show ?thesis
      by (cases "callback t") (auto simp: timer_fires_def settle_def setTimeout_def one_timer_def)
  qed
qed

lemma forceRefresh_twice:
  assumes "one_timer w"
    and "fst (forceRefresh rt c1 w) = Inr t1"
    and "fst (forceRefresh rt c2 (snd (forceRefresh rt c1 w))) = Inr t2"
  shows "length (timers (snd (forceRefresh rt c2 (snd (forceRefresh rt c1 w))))) = 1"
  using one_timer_forceRefresh [OF assms(1), of rt c1] assms(2,3)
    one_timer_forceRefresh [of "snd (forceRefresh rt c1 w)" rt c2]
  by blast

text \<open>
  The same holds for two calls of \<open>forceRefresh()\<close> that overlap: both start their browser
  login before either has settled.
\<close>

lemma forceRefresh_twice_overlapping:
  assumes "one_timer w"
    and "fst (forceRefresh_settle rt ms2 f2
           (snd (forceRefresh_settle rt ms1 f1 (forceRefresh_start (forceRefresh_start w))))) = Inr t2"
  shows "length (timers (snd (forceRefresh_settle rt ms2 f2
           (snd (forceRefresh_settle rt ms1 f1 (forceRefresh_start (forceRefresh_start w))))))) = 1"
proof -
  from assms(1) have "one_timer (forceRefresh_start (forceRefresh_start w))"
    by (simp add: one_timer_def forceRefresh_start_def)
  from one_timer_forceRefresh_settle [OF this, of rt ms1 f1]
  have "one_timer (snd (forceRefresh_settle rt ms1 f1 (forceRefresh_start (forceRefresh_start w))))"
    by simp
  from one_timer_forceRefresh_settle [OF this, of rt ms2 f2] assms(2)
  show ?thesis by blast
qed

text \<open>
  Claim C6, where the code departs from it. When the login of a scheduled refresh fails after
  another \<open>forceRefresh()\<close> has scheduled its own refresh, the retry is set without cancelling
  that timer: two timers are pending, the manager holds only the retry, and
  \<open>clearCachedToken()\<close> leaves the other one pending.
\<close>

theorem overlapping_refresh_two_timers:
  "map (\<lambda>t. (handle t, callback t)) (timers ex_overlap)
     = [(1, ScheduledRefresh), (2, RetryRefresh)]
   \<and> refreshTimeout ex_overlap = Some 2
   \<and> map (\<lambda>t. (handle t, callback t)) (timers (clearCachedToken ex_failure ex_overlap))
     = [(1, ScheduledRefresh)]"
  by code_simp

lemma authMethod_scheduleRefresh [simp]: "authMethod (scheduleRefresh d w) = authMethod w"
  by (auto simp: scheduleRefresh_def setTimeout_def clearTimeout_def Let_def
      split: option.splits jsdate.splits)

lemma authMethod_storeToken [simp]: "authMethod (snd (storeToken rt token d w)) = authMethod w"
  by (auto simp: storeToken_def addToKeychain_def deleteFromKeychain_def
      split: jsdate.splits prod.splits sum.splits option.splits)

lemma authMethod_run_callback [simp]: "authMethod (run_callback cb t w) = authMethod w"
  by (cases cb) simp

lemma authMethod_forceRefresh_settle [simp]:
  "authMethod (snd (forceRefresh_settle rt ms fetched w)) = authMethod w"
proof (cases fetched)
  case (Inl e)
  then show ?thesis by (simp add: forceRefresh_settle_def)
next
  case (Inr p)
  obtain token d where p: "p = (token, d)" by (cases p)
  obtain r w1 where st: "storeToken rt token d w = (r, w1)" by (cases "storeToken rt token d w")
  from authMethod_storeToken [of rt token d w] st have f: "authMethod w1 = authMethod w" by simp
  show ?thesis
    using Inr p st f
    by (cases r; cases d) (auto simp: forceRefresh_settle_def Let_def tick_def split: option.splits)
qed

lemma authMethod_getValidToken: "authMethod (snd (getValidToken rt c w)) = authMethod w"
  by (auto simp: getValidToken_def forceRefresh_def forceRefresh_start_def tick_def Let_def
      split: option.splits)

text \<open>
  Claim C9. \<open>initializeAuth()\<close> takes the first that applies. A static token in the
  environment: mode \<open>static\<close>, with that token less its \<open>Bearer\<close> prefix. Else the auto-refresh
  flag set to \<open>true\<close>: on a platform other than macOS it fails at once, and nothing changes;
  on macOS the mode is \<open>auto-refresh\<close> with the token \<open>getValidToken()\<close> gives, and when
  \<open>getValidToken()\<close> fails, that failure is the result and no mode is set. Else OAuth client
  credentials configured: mode \<open>oauth\<close> with the token of the OAuth module, or that module's
  failure. Else it fails with the error that no authentication is configured.
\<close>

theorem initializeAuth_priority:
  "(truthy_str (env ''WEBEX_PUBLIC_WORKSPACE_API_KEY'') \<longrightarrow>
      initializeAuth rt env oa c w
        = (Inr (), w\<lparr>cfg_cachedToken := Some (strip_bearer (the (env ''WEBEX_PUBLIC_WORKSPACE_API_KEY''))),
                       authInitialized := True, authMethod := Some ''static''\<rparr>))
   \<and> (\<not> truthy_str (env ''WEBEX_PUBLIC_WORKSPACE_API_KEY'')
        \<and> env ''WEBEX_AUTO_REFRESH_TOKEN'' = Some ''true'' \<and> platform w \<noteq> ''darwin'' \<longrightarrow>
      initializeAuth rt env oa c w
        = (Inl (new_Error rt ''Auto-refresh token is only supported on macOS''), w))
   \<and> (\<not> truthy_str (env ''WEBEX_PUBLIC_WORKSPACE_API_KEY'')
        \<and> env ''WEBEX_AUTO_REFRESH_TOKEN'' = Some ''true'' \<and> platform w = ''darwin'' \<longrightarrow>
      (\<forall>token w1.
         getValidToken rt c (w\<lparr>keychainTokenManager := True, onTokenRefreshed := Some ConfigCallback\<rparr>)
           = (Inr token, w1) \<longrightarrow>
         initializeAuth rt env oa c w
           = (Inr (), w1\<lparr>cfg_cachedToken := Some token, authInitialized := True,
                          authMethod := Some ''auto-refresh''\<rparr>))
      \<and> (\<forall>e w1.
         getValidToken rt c (w\<lparr>keychainTokenManager := True, onTokenRefreshed := Some ConfigCallback\<rparr>)
           = (Inl e, w1) \<longrightarrow>
         initializeAuth rt env oa c w = (Inl e, w1) \<and> authMethod w1 = authMethod w))
   \<and> (\<not> truthy_str (env ''WEBEX_PUBLIC_WORKSPACE_API_KEY'')
        \<and> env ''WEBEX_AUTO_REFRESH_TOKEN'' \<noteq> Some ''true'' \<and> hasOAuthCredentials oa \<longrightarrow>
      (\<forall>token. oauth_getValidToken oa = Inr token \<longrightarrow>
         initializeAuth rt env oa c w
           = (Inr (), w\<lparr>cfg_cachedToken := Some token, authInitialized := True,
                         authMethod := Some ''oauth''\<rparr>))
      \<and> (\<forall>e. oauth_getValidToken oa = Inl e \<longrightarrow> initializeAuth rt env oa c w = (Inl e, w)))
   \<and> (\<not> truthy_str (env ''WEBEX_PUBLIC_WORKSPACE_API_KEY'')
        \<and> env ''WEBEX_AUTO_REFRESH_TOKEN'' \<noteq> Some ''true'' \<and> \<not> hasOAuthCredentials oa \<longrightarrow>
      initializeAuth rt env oa c w = (Inl (new_Error rt no_auth_message), w))"
proof (intro conjI impI allI)
  fix e w1
  assume "\<not> truthy_str (env ''WEBEX_PUBLIC_WORKSPACE_API_KEY'')
        \<and> env ''WEBEX_AUTO_REFRESH_TOKEN'' = Some ''true'' \<and> platform w = ''darwin''"
    and g: "getValidToken rt c (w\<lparr>keychainTokenManager := True, onTokenRefreshed := Some ConfigCallback\<rparr>)
           = (Inl e, w1)"
  from authMethod_getValidToken [of rt c "w\<lparr>keychainTokenManager := True, onTokenRefreshed := Some ConfigCallback\<rparr>"] g
  show "authMethod w1 = authMethod w" by simp
qed (simp_all add: initializeAuth_def Let_def)

text \<open>Runs for C9, one for each outcome.\<close>

theorem initializeAuth_priority_witness:
  "truthy_str (ex_env_static ''WEBEX_PUBLIC_WORKSPACE_API_KEY'')
   \<and> authMethod (snd (initializeAuth ex_host ex_env_static (ex_oauth True) ex_failure ex_world)) = Some ''static''
   \<and> cfg_cachedToken (snd (initializeAuth ex_host ex_env_static (ex_oauth True) ex_failure ex_world)) = Some ''abc''
   \<and> \<not> truthy_str (ex_env_auto ''WEBEX_PUBLIC_WORKSPACE_API_KEY'')
   \<and> ex_env_auto ''WEBEX_AUTO_REFRESH_TOKEN'' = Some ''true''
   \<and> platform (ex_world\<lparr>platform := ''linux''\<rparr>) \<noteq> ''darwin''
   \<and> fst (initializeAuth ex_host ex_env_auto (ex_oauth True) ex_failure (ex_world\<lparr>platform := ''linux''\<rparr>))
       = Inl (new_Error ex_host ''Auto-refresh token is only supported on macOS'')
   \<and> platform ex_restarted = ''darwin''
   \<and> authMethod (snd (initializeAuth ex_host ex_env_auto (ex_oauth True) ex_failure ex_restarted))
       = Some ''auto-refresh''
   \<and> \<not> truthy_str (ex_env_none ''WEBEX_PUBLIC_WORKSPACE_API_KEY'')
   \<and> ex_env_none ''WEBEX_AUTO_REFRESH_TOKEN'' \<noteq> Some ''true''
   \<and> authMethod (snd (initializeAuth ex_host ex_env_none (ex_oauth True) ex_failure ex_world)) = Some ''oauth''
   \<and> fst (initializeAuth ex_host ex_env_none (ex_oauth False) ex_failure ex_world)
       = Inl (new_Error ex_host no_auth_message)"
proof -
  have s1: "truthy_str (ex_env_static ''WEBEX_PUBLIC_WORKSPACE_API_KEY'')"
    and s2: "strip_bearer (the (ex_env_static ''WEBEX_PUBLIC_WORKSPACE_API_KEY'')) = ''abc''"
    by (simp_all add: ex_env_static_def strip_bearer_def is_space_def)
  have a1: "\<not> truthy_str (ex_env_auto ''WEBEX_PUBLIC_WORKSPACE_API_KEY'')"
    and a2: "ex_env_auto ''WEBEX_AUTO_REFRESH_TOKEN'' = Some ''true''"
    by (simp_all add: ex_env_auto_def)
  have p1: "platform (ex_world\<lparr>platform := ''linux''\<rparr>) \<noteq> ''darwin''"
    and p2: "platform ex_restarted = ''darwin''"
    by (simp_all add: ex_restarted_def ex_world_def)
  have n1: "\<not> truthy_str (ex_env_none ''WEBEX_PUBLIC_WORKSPACE_API_KEY'')"
    and n2: "ex_env_none ''WEBEX_AUTO_REFRESH_TOKEN'' \<noteq> Some ''true''"
    by (simp_all add: ex_env_none_def)
  have o: "hasOAuthCredentials (ex_oauth True)" "\<not> hasOAuthCredentials (ex_oauth False)"
    "oauth_getValidToken (ex_oauth True) = Inr ''o1''"
    by (simp_all add: ex_oauth_def)
  obtain w1 where g: "getValidToken ex_host ex_failure
        (ex_restarted\<lparr>keychainTokenManager := True, onTokenRefreshed := Some ConfigCallback\<rparr>) = (Inr ''t1'', w1)"
  proof -
    have "fst (getValidToken ex_host ex_failure
        (ex_restarted\<lparr>keychainTokenManager := True, onTokenRefreshed := Some ConfigCallback\<rparr>)) = Inr ''t1''"
      by code_simp
    then show thesis
      by (cases "getValidToken ex_host ex_failure
        (ex_restarted\<lparr>keychainTokenManager := True, onTokenRefreshed := Some ConfigCallback\<rparr>)")
         (auto intro: that)
  qed
  from s1 s2 initializeAuth_priority [of ex_env_static ex_host "ex_oauth True" ex_failure ex_world]
  have r1: "authMethod (snd (initializeAuth ex_host ex_env_static (ex_oauth True) ex_failure ex_world)) = Some ''static''
    \<and> cfg_cachedToken (snd (initializeAuth ex_host ex_env_static (ex_oauth True) ex_failure ex_world)) = Some ''abc''"
    by simp
  from a1 a2 p1 initializeAuth_priority [of ex_env_auto ex_host "ex_oauth True" ex_failure "ex_world\<lparr>platform := ''linux''\<rparr>"]
  have r2: "fst (initializeAuth ex_host ex_env_auto (ex_oauth True) ex_failure (ex_world\<lparr>platform := ''linux''\<rparr>))
       = Inl (new_Error ex_host ''Auto-refresh token is only supported on macOS'')"
    by simp
  from a1 a2 p2 g initializeAuth_priority [of ex_env_auto ex_host "ex_oauth True" ex_failure ex_restarted]
  have r3: "authMethod (snd (initializeAuth ex_host ex_env_auto (ex_oauth True) ex_failure ex_restarted))
       = Some ''auto-refresh''"
    by simp
  from n1 n2 o initializeAuth_priority [of ex_env_none ex_host "ex_oauth True" ex_failure ex_world]
  have r4: "authMethod (snd (initializeAuth ex_host ex_env_none (ex_oauth True) ex_failure ex_world)) = Some ''oauth''"
    by simp
  from n1 n2 o initializeAuth_priority [of ex_env_none ex_host "ex_oauth False" ex_failure ex_world]
  have r5: "fst (initializeAuth ex_host ex_env_none (ex_oauth False) ex_failure ex_world)
       = Inl (new_Error ex_host no_auth_message)"
    by simp
  from s1 a1 a2 p1 p2 n1 n2 r1 r2 r3 r4 r5 show ?thesis by blast
qed

end
